theory Spec2Isabelle
  imports Complex_Main "HOL-Library.Word" "HOL-Library.AList" "HOL-Library.Log_Nat"
begin

unbundle bit_operations_syntax

section \<open>ConnMon: a passive TCP connection monitor (src/connmon.cpp)\<close>

text \<open>
  The program keeps all of its state in file-level static variables and processes one
  packet at a time. The embedding passes that state explicitly: \<open>config\<close> holds the
  statics that only the command line sets, \<open>state\<close> the ones \<open>processPacket\<close>,
  \<open>cleanUp\<close> and the loop of \<open>main\<close> change.

  Conventions of the embedding:
  \<^item> \<open>uint32_t\<close> is \<open>32 word\<close>, a port (\<open>uint16_t\<close>) is \<open>16 word\<close>, the flag bits of
    the TCP header are a \<open>12 word\<close>; the C \<open>int\<close> counters are \<open>int\<close> (none of the
    properties below is about their overflow).
  \<^item> a \<open>double\<close> is the \<open>real\<close> it denotes, and every arithmetic operation on doubles
    (\<open>+\<close>, \<open>-\<close>, \<open>*\<close>, the conversion of an integer, the literal \<open>1e-6\<close>) is the exact
    operation followed by \<open>fl\<close>, the rounding of IEEE 754 binary64 (round to nearest,
    ties to even, 53 bits of significand). Every operation is rounded once: none is
    fused with another or carried out in extended precision. Comparisons are exact. The
    exponent range is not bounded: capture times and byte counts are far from overflow,
    and a sum or difference of two doubles is never rounded in the subnormal range.
    Infinities and NaN do not occur.
  \<^item> a \<open>std::unordered_map<std::string, V>\<close> is an association list with at most one
    entry per key, read with \<open>map_of\<close>; no property depends on the iteration order.
  \<^item> \<open>std::string\<close> is \<open>string\<close>, \<open>+\<close> on strings is \<open>@\<close>.
  \<^item> what \<open>printf\<close> writes is an \<open>observation\<close> record holding the values of the
    fields; the textual formats (\<open>fmtTimeDiff\<close>, \<open>-m\<close>), the flushing of stdout and
    the summaries on stderr are not modelled.
\<close>

subsection \<open>Data\<close>

type_synonym u32 = "32 word"
type_synonym u16 = "16 word"

text \<open>class \<open>flowRec\<close> (lines 103-120).\<close>

record flowRec =
  flowname :: string
  lastTm :: real
  bytesSnt :: real
  lastSeq :: u32
  lastAck :: u32
  lastPay :: u32
  revFlow :: bool

text \<open>The constructor \<open>flowRec(nm)\<close>: every other member is value-initialised.\<close>

definition new_flowRec :: "string \<Rightarrow> flowRec" where
  "new_flowRec nm =
     \<lparr>flowname = nm, lastTm = 0, bytesSnt = 0, lastSeq = 0, lastAck = 0, lastPay = 0,
      revFlow = False\<rparr>"

text \<open>
  What \<open>processPacket\<close> reads of a libtins \<open>Packet\<close>: the capture timestamp, the size of
  the outermost header (\<open>pkt.pdu()->header_size()\<close>), and the TCP, IPv4 and IPv6 headers
  that \<open>find_pdu\<close> returns (\<open>None\<close> for \<open>nullptr\<close>). \<open>tcp_timestamp\<close> is the TCP
  timestamp option \<open>(TSval, ECR)\<close>; \<open>None\<close> is the exception \<open>timestamp()\<close> throws when
  the option is missing.
\<close>

record tcp_hdr =
  sport :: u16
  dport :: u16
  seq :: u32
  ack_seq :: u32
  flags :: "12 word"
  tcp_header_size :: u32
  tcp_timestamp :: "(u32 \<times> u32) option"

record ip_hdr =
  src_addr :: string
  dst_addr :: string
  tot_len :: u16
  ip_header_size :: u32

record ipv6_hdr =
  src_addr6 :: string
  dst_addr6 :: string
  payload_length :: u16
  ipv6_header_size :: u32

record packet =
  ts_seconds :: int
  ts_microseconds :: int
  pdu_header_size :: u32
  find_tcp :: "tcp_hdr option"
  find_ip :: "ip_hdr option"
  find_ipv6 :: "ipv6_hdr option"

text \<open>
  The enumerators \<open>TCP::FIN\<close>, \<open>TCP::SYN\<close> and \<open>TCP::ACK\<close> of libtins are the bits of
  the TCP header.
\<close>

definition TCP_FIN :: "12 word" where "TCP_FIN = 1"
definition TCP_SYN :: "12 word" where "TCP_SYN = 2"
definition TCP_ACK :: "12 word" where "TCP_ACK = 16"

text \<open>The statics set once, by their initialisers or by the command line (lines 127-143).\<close>

record config =
  rtdMaxAge :: real
  flowMaxIdle :: real
  sumInt :: real
  maxFlows :: int
  quick :: bool
  time_to_run :: real
  maxPackets :: int
  localIP :: string
  filtLocal :: bool

text \<open>The initialisers: what a run with no flag but \<open>-r file\<close> uses.\<close>

definition default_config :: config where
  "default_config =
     \<lparr>rtdMaxAge = 10, flowMaxIdle = 300, sumInt = 10, maxFlows = 10000, quick = False,
      time_to_run = 0, maxPackets = 0, localIP = [], filtLocal = True\<rparr>"

text \<open>The statics that change while packets are processed (lines 122-124, 132-140).\<close>

record state =
  flows :: "(string \<times> flowRec) list"
  tsTbl :: "(string \<times> real) list"
  seqTbl :: "(string \<times> real) list"
  flowCnt :: int
  offTm :: int
  capTm :: real
  startm :: real
  pktCnt :: int
  not_tcp :: int
  no_TS :: int
  not_v4or6 :: int
  uniDir :: int

definition init_state :: state where
  "init_state =
     \<lparr>flows = [], tsTbl = [], seqTbl = [], flowCnt = 0, offTm = - 1, capTm = 0, startm = 0,
      pktCnt = 0, not_tcp = 0, no_TS = 0, not_v4or6 = 0, uniDir = 0\<rparr>"

text \<open>
  The fields of one output line (lines 424-453). \<open>o_prtd\<close> and \<open>o_srtd\<close> are \<open>None\<close>
  where the line has \<open>*\<close>, \<open>o_dupDiff\<close> is \<open>None\<close> where it has \<open>-\<close>.
\<close>

record observation =
  o_capTm :: real
  o_prtd :: "real option"
  o_srtd :: "real option"
  o_dseq :: int
  o_dupDiff :: "real option"
  o_payLen :: u32
  o_bytesSnt :: real
  o_flow :: string

text \<open>
  How one call of \<open>processPacket\<close> ends: at one of its three early returns, or after the
  classification, with the values of the locals \<open>pd\<close>, \<open>sd\<close>, \<open>ds\<close>, \<open>dp\<close> and the line it
  printed, if any.
\<close>

record verdict =
  pd :: bool
  sd :: bool
  ds :: bool
  dp :: bool
  printed :: "observation option"

datatype outcome = NotTCP | NotV4or6 | FlowDropped | Classified verdict

subsection \<open>Double-precision arithmetic\<close>

text \<open>
  \<open>ilog2 x\<close> is the binary exponent of a positive \<open>x\<close>, the integer \<open>e\<close> with
  \<open>2 ^ e \<le> x < 2 ^ (e + 1)\<close>; it is computed on integers, so that \<open>fl\<close> can be evaluated.
  \<open>rne\<close> rounds to the nearest integer, ties to even. \<open>fl x\<close> is the binary64 number
  nearest to \<open>x\<close>: \<open>x\<close> is scaled by \<open>2 ^ (52 - e)\<close> to a significand between \<open>2 ^ 52\<close>
  and \<open>2 ^ 53\<close>, the significand is rounded to an integer, and the result is scaled back.
\<close>

definition ilog2 :: "real \<Rightarrow> int" where
  "ilog2 x = (if 1 \<le> x then bitlen \<lfloor>x\<rfloor> - 1 else - bitlen (\<lceil>1 / x\<rceil> - 1))"

definition rne :: "real \<Rightarrow> int" where
  "rne y = (let f = \<lfloor>y\<rfloor>; d = y - of_int f
            in if d < 1 / 2 \<or> (d = 1 / 2 \<and> even f) then f else f + 1)"

definition fl :: "real \<Rightarrow> real" where
  "fl x = (if x = 0 then 0
           else let e = ilog2 \<bar>x\<bar>
                in of_int (rne (x * 2 powi (52 - e))) * 2 powi (e - 52))"

subsection \<open>Decimal rendering and the tables\<close>

text \<open>\<open>std::to_string\<close> on an unsigned value: its decimal digits, no sign, no padding.\<close>

definition digit :: "nat \<Rightarrow> char" where
  "digit d = ''0123456789'' ! d"

fun to_string :: "nat \<Rightarrow> string" where
  "to_string n =
     (if n < 10 then [digit n] else to_string (n div 10) @ [digit (n mod 10)])"

declare to_string.simps [simp del]

text \<open>
  \<open>addTS\<close> and \<open>addSeq\<close> (lines 155-174): \<open>try_emplace\<close>, or \<open>emplace\<close> under
  \<open>count(key) == 0\<close>; either way a key that is present keeps its value.
\<close>

definition addTS :: "string \<Rightarrow> real \<Rightarrow> (string \<times> real) list \<Rightarrow> (string \<times> real) list" where
  "addTS key tm tbl = (if map_of tbl key = None then tbl @ [(key, tm)] else tbl)"

definition addSeq :: "string \<Rightarrow> real \<Rightarrow> (string \<times> real) list \<Rightarrow> (string \<times> real) list" where
  "addSeq key tm tbl = (if map_of tbl key = None then tbl @ [(key, tm)] else tbl)"

text \<open>
  \<open>getTStm\<close> and \<open>getSeqTm\<close> (lines 191-212): \<open>at(key)\<close>, then \<open>erase(key)\<close>; the
  \<open>out_of_range\<close> that \<open>at\<close> throws for a missing key is caught and becomes \<open>-1\<close>.
  The result is the returned time and the table afterwards.
\<close>

definition getTStm :: "string \<Rightarrow> (string \<times> real) list \<Rightarrow> real \<times> (string \<times> real) list" where
  "getTStm key tbl =
     (case map_of tbl key of
        Some ti \<Rightarrow> (ti, AList.delete key tbl)
      | None \<Rightarrow> (- 1, tbl))"

definition getSeqTm :: "string \<Rightarrow> (string \<times> real) list \<Rightarrow> real \<times> (string \<times> real) list" where
  "getSeqTm key tbl =
     (case map_of tbl key of
        Some ti \<Rightarrow> (ti, AList.delete key tbl)
      | None \<Rightarrow> (- 1, tbl))"

subsection \<open>processPacket (lines 253-460)\<close>

text \<open>
  Lines 268-281: addresses, payload length and length on the wire, from the IPv4 header
  or else the IPv6 header; \<open>None\<close> when the packet has neither. The arithmetic is
  \<open>uint32_t\<close>.
\<close>

definition ip_info :: "packet \<Rightarrow> tcp_hdr \<Rightarrow> (string \<times> string \<times> u32 \<times> u32) option" where
  "ip_info pkt t_tcp =
     (case find_ip pkt of
        Some ip \<Rightarrow>
          Some (src_addr ip, dst_addr ip,
                ucast (tot_len ip) - ip_header_size ip - tcp_header_size t_tcp,
                ucast (tot_len ip) + pdu_header_size pkt)
      | None \<Rightarrow>
          (case find_ipv6 pkt of
             Some ipv6 \<Rightarrow>
               Some (src_addr6 ipv6, dst_addr6 ipv6,
                     ucast (payload_length ipv6),
                     ucast (payload_length ipv6) + ipv6_header_size ipv6 + pdu_header_size pkt)
           | None \<Rightarrow> None))"

text \<open>
  Lines 285-299: the capture time, relative to the whole second of the first usable
  packet. \<open>double(i)\<close> is \<open>fl (real_of_int i)\<close>, the literal \<open>1e-6\<close> is
  \<open>fl (1 / 10 ^ 6)\<close>.
\<close>

definition set_capTm :: "packet \<Rightarrow> state \<Rightarrow> state" where
  "set_capTm pkt s =
     (if offTm s < 0
      then s\<lparr>offTm := ts_seconds pkt,
             startm := fl (fl (real_of_int (ts_microseconds pkt)) * fl (1 / 10 ^ 6)),
             capTm := fl (fl (real_of_int (ts_microseconds pkt)) * fl (1 / 10 ^ 6))\<rparr>
      else s\<lparr>capTm := fl (fl (real_of_int (ts_seconds pkt - offTm s))
                            + fl (fl (real_of_int (ts_microseconds pkt)) * fl (1 / 10 ^ 6)))\<rparr>)"

text \<open>
  Lines 307-326: the flow record of \<open>fstr\<close>, created when it is missing. \<open>None\<close> is the
  early return of line 311. \<open>rstr\<close> is the key of the reverse flow,
  \<open>dststr + "+" + srcstr\<close>. The result is the state and the record \<open>fr\<close> points to.
\<close>

definition get_flow :: "config \<Rightarrow> string \<Rightarrow> string \<Rightarrow> state \<Rightarrow> (state \<times> flowRec) option" where
  "get_flow cfg fstr rstr s =
     (case map_of (flows s) fstr of
        None \<Rightarrow>
          if flowCnt s > maxFlows cfg then None
          else
            let fl1 = flows s @ [(fstr, new_flowRec fstr)];
                has_rev = (map_of fl1 rstr \<noteq> None);
                fl2 = (if has_rev
                       then AList.map_entry fstr (\<lambda>r. r\<lparr>revFlow := True\<rparr>)
                              (AList.map_entry rstr (\<lambda>r. r\<lparr>revFlow := True\<rparr>) fl1)
                       else fl1);
                fr = (if has_rev then (new_flowRec fstr)\<lparr>revFlow := True\<rparr>
                      else new_flowRec fstr)
            in Some (s\<lparr>flows := fl2, flowCnt := flowCnt s + 1\<rparr>, fr)
      | Some fr \<Rightarrow> Some (s, fr))"

text \<open>
  Lines 350-361, run when \<open>no_pping\<close> is false: the result is the table, \<open>pd\<close> and
  \<open>prtd\<close>.
\<close>

definition pping ::
  "config \<Rightarrow> real \<Rightarrow> string \<Rightarrow> string \<Rightarrow> string \<Rightarrow> string \<Rightarrow> u32 \<Rightarrow> u32 \<Rightarrow>
   (string \<times> real) list \<Rightarrow> (string \<times> real) list \<times> bool \<times> real" where
  "pping cfg now ipdstr fstr srcstr dststr rcv_tsval rcv_tsecr tbl =
     (let tbl1 = (if \<not> filtLocal cfg \<or> localIP cfg \<noteq> ipdstr
                  then addTS (to_string (unat rcv_tsval) @ ''+'' @ fstr) now tbl
                  else tbl);
          (t, tbl2) = getTStm (to_string (unat rcv_tsecr) @ ''+'' @ dststr @ ''+'' @ srcstr) tbl1
      in if t > 0 then (tbl2, True, fl (now - t)) else (tbl2, False, 0))"

text \<open>
  Lines 329-361 without the two counters: \<open>no_pping\<close> is set when the flow has no
  reverse flow, when the packet has no timestamp option, and when \<open>TSval\<close> is zero or
  \<open>ECR\<close> is zero on a packet that is not a SYN; the block of \<open>pping\<close> runs when it is
  not set. (Without the option the source tests \<open>rcv_tsval\<close> and \<open>rcv_tsecr\<close>
  uninitialised, after \<open>no_pping\<close> is already set.)
\<close>

definition ts_rtd ::
  "config \<Rightarrow> real \<Rightarrow> string \<Rightarrow> string \<Rightarrow> string \<Rightarrow> string \<Rightarrow> flowRec \<Rightarrow> tcp_hdr \<Rightarrow>
   (string \<times> real) list \<Rightarrow> (string \<times> real) list \<times> bool \<times> real" where
  "ts_rtd cfg now ipdstr fstr srcstr dststr fr t_tcp tbl =
     (case tcp_timestamp t_tcp of
        None \<Rightarrow> (tbl, False, 0)
      | Some (rcv_tsval, rcv_tsecr) \<Rightarrow>
          let no_pping =
                (\<not> revFlow fr \<or> rcv_tsval = 0 \<or>
                 (rcv_tsecr = 0 \<and> flags t_tcp AND TCP_SYN = 0))
          in if \<not> no_pping
             then pping cfg now ipdstr fstr srcstr dststr rcv_tsval rcv_tsecr tbl
             else (tbl, False, 0))"

text \<open>Lines 366-381: the result is the table, \<open>sd\<close> and \<open>srtd\<close>.\<close>

definition seq_rtd ::
  "config \<Rightarrow> real \<Rightarrow> string \<Rightarrow> string \<Rightarrow> string \<Rightarrow> string \<Rightarrow> flowRec \<Rightarrow> tcp_hdr \<Rightarrow> u32 \<Rightarrow>
   (string \<times> real) list \<Rightarrow> (string \<times> real) list \<times> bool \<times> real" where
  "seq_rtd cfg now ipdstr fstr srcstr dststr fr t_tcp payLen tbl =
     (if \<not> filtLocal cfg \<or> localIP cfg \<noteq> ipdstr
      then
        let tbl1 = (if revFlow fr \<and> payLen > 0
                    then addSeq (to_string (unat (seq t_tcp + payLen)) @ ''+'' @ fstr) now tbl
                    else tbl)
        in if revFlow fr \<and> (payLen = 0 \<or> ack_seq t_tcp \<noteq> lastAck fr)
                \<and> flags t_tcp AND TCP_ACK \<noteq> 0
           then
             let (t, tbl2) =
                   getSeqTm (to_string (unat (ack_seq t_tcp)) @ ''+'' @ dststr @ ''+'' @ srcstr) tbl1
             in if t > 0 then (tbl2, True, fl (now - t)) else (tbl2, False, 0)
           else (tbl1, False, 0)
      else (tbl, False, 0))"

text \<open>
  Lines 386-391: \<open>dseq\<close> is an \<open>int\<close> that receives an unsigned 32-bit difference, so it
  is that difference read as two's complement.
\<close>

definition seq_delta :: "flowRec \<Rightarrow> u32 \<Rightarrow> int" where
  "seq_delta fr seqno =
     (if lastSeq fr \<noteq> 0 then sint (seqno - (lastSeq fr + lastPay fr)) else 0)"

text \<open>Lines 396-406: the duplicate-ACK test; the result is \<open>dupDiff\<close> and \<open>dp\<close>.\<close>

definition dup_ack :: "real \<Rightarrow> flowRec \<Rightarrow> tcp_hdr \<Rightarrow> u32 \<Rightarrow> real option \<times> bool" where
  "dup_ack now fr t_tcp payLen =
     (if flags t_tcp = TCP_ACK \<and> payLen = 0 \<and> ack_seq t_tcp = lastAck fr
      then (Some (fl (now - lastTm fr)), fl (now - lastTm fr) > 0)
      else (None, False))"

text \<open>
  Lines 327-453, the part of \<open>processPacket\<close> after the flow record is found: \<open>fr0\<close> is
  the record \<open>fr\<close> points to, \<open>capTm s\<close> the capture time of the packet. The result is
  the state, with the record written back under \<open>fstr\<close>, and the verdict. The
  conversion \<open>(double)pktLen\<close> of a \<open>uint32_t\<close> is exact.
\<close>

definition classify ::
  "config \<Rightarrow> state \<Rightarrow> flowRec \<Rightarrow> tcp_hdr \<Rightarrow> string \<Rightarrow> string \<Rightarrow> string \<Rightarrow> u32 \<Rightarrow> u32 \<Rightarrow>
   state \<times> verdict" where
  "classify cfg s3 fr0 t_tcp ipdstr srcstr dststr payLen pktLen =
     (let now = capTm s3;
          fstr = srcstr @ ''+'' @ dststr;
          fr1 = fr0\<lparr>bytesSnt := fl (bytesSnt fr0 + real (unat pktLen))\<rparr>;
          (ts', pd', prtd) =
            ts_rtd cfg now ipdstr fstr srcstr dststr fr1 t_tcp (tsTbl s3);
          seqno = seq t_tcp;
          ackno = ack_seq t_tcp;
          (sq', sd', srtd) =
            seq_rtd cfg now ipdstr fstr srcstr dststr fr1 t_tcp payLen (seqTbl s3);
          dseq = seq_delta fr1 seqno;
          ds' = (dseq > 0);
          fr2 = fr1\<lparr>lastSeq := (if flags t_tcp AND TCP_SYN \<noteq> 0 \<or> flags t_tcp AND TCP_FIN \<noteq> 0
                                   then seqno + 1 else seqno)\<rparr>;
          (dupDiff, dp') = dup_ack now fr2 t_tcp payLen;
          fr3 = fr2\<lparr>lastPay := payLen, lastTm := now, lastAck := ackno\<rparr>;
          s6 = s3\<lparr>uniDir := (if \<not> revFlow fr1 then uniDir s3 + 1 else uniDir s3),
                  no_TS := (if tcp_timestamp t_tcp = None then no_TS s3 + 1 else no_TS s3),
                  tsTbl := ts', seqTbl := sq',
                  flows := AList.map_entry fstr (\<lambda>_. fr3) (flows s3)\<rparr>;
          line =
            (if \<not> pd' \<and> \<not> sd' \<and> \<not> ds' \<and> \<not> dp' then None
             else if quick cfg \<and> \<not> pd' \<and> \<not> sd' then None
             else Some \<lparr>o_capTm = now,
                        o_prtd = (if pd' then Some prtd else None),
                        o_srtd = (if sd' then Some srtd else None),
                        o_dseq = dseq, o_dupDiff = dupDiff, o_payLen = payLen,
                        o_bytesSnt = bytesSnt fr3, o_flow = fstr\<rparr>)
      in (s6, \<lparr>pd = pd', sd = sd', ds = ds', dp = dp', printed = line\<rparr>))"

text \<open>
  \<open>processPacket\<close>: the packet counter, the three early returns (no TCP header,
  neither IPv4 nor IPv6, no room for a new flow), the capture time, the flow strings, and
  then the classification.
\<close>

definition processPacket :: "config \<Rightarrow> state \<Rightarrow> packet \<Rightarrow> state \<times> outcome" where
  "processPacket cfg s0 pkt =
     (let s1 = s0\<lparr>pktCnt := pktCnt s0 + 1\<rparr> in
      case find_tcp pkt of
        None \<Rightarrow> (s1\<lparr>not_tcp := not_tcp s1 + 1\<rparr>, NotTCP)
      | Some t_tcp \<Rightarrow>
      (case ip_info pkt t_tcp of
        None \<Rightarrow> (s1\<lparr>not_v4or6 := not_v4or6 s1 + 1\<rparr>, NotV4or6)
      | Some (ipsstr, ipdstr, payLen, pktLen) \<Rightarrow>
      (let s2 = set_capTm pkt s1;
           srcstr = ipsstr @ '':'' @ to_string (unat (sport t_tcp));
           dststr = ipdstr @ '':'' @ to_string (unat (dport t_tcp))
       in
       case get_flow cfg (srcstr @ ''+'' @ dststr) (dststr @ ''+'' @ srcstr) s2 of
         None \<Rightarrow> (s2, FlowDropped)
       | Some (s3, fr0) \<Rightarrow>
           (let (s6, v) = classify cfg s3 fr0 t_tcp ipdstr srcstr dststr payLen pktLen
            in (s6, Classified v)))))"

subsection \<open>cleanUp (lines 462-491)\<close>

text \<open>
  The two correlation tables are compared with the static \<open>capTm\<close>, the flows with the
  argument \<open>n\<close>; \<open>flowCnt\<close> goes down by one for every flow erased.
\<close>

definition cleanUp :: "config \<Rightarrow> real \<Rightarrow> state \<Rightarrow> state" where
  "cleanUp cfg n s =
     s\<lparr>tsTbl := filter (\<lambda>e. \<not> fl (capTm s - snd e) > rtdMaxAge cfg) (tsTbl s),
       seqTbl := filter (\<lambda>e. \<not> fl (capTm s - snd e) > rtdMaxAge cfg) (seqTbl s),
       flows := filter (\<lambda>e. \<not> fl (n - lastTm (snd e)) > flowMaxIdle cfg) (flows s),
       flowCnt := flowCnt s
                  - int (length (filter (\<lambda>e. fl (n - lastTm (snd e)) > flowMaxIdle cfg)
                                   (flows s)))\<rparr>"

subsection \<open>The loop of main (lines 662-691)\<close>

text \<open>
  The packet source is the list of the packets it yields. The result is the final state,
  the number of calls of \<open>processPacket\<close>, and their outcomes in order. The loop ends at
  the \<open>break\<close> of line 672 or when the source is exhausted.
\<close>

fun run_loop ::
  "config \<Rightarrow> real \<Rightarrow> real \<Rightarrow> state \<Rightarrow> packet list \<Rightarrow> state \<times> nat \<times> outcome list" where
  "run_loop cfg nxtSum nxtClean s [] = (s, 0, [])"
| "run_loop cfg nxtSum nxtClean s (pkt # rest) =
     (let (s1, out) = processPacket cfg s pkt in
      if (time_to_run cfg > 0 \<and> fl (capTm s1 - startm s1) \<ge> time_to_run cfg) \<or>
         (maxPackets cfg > 0 \<and> pktCnt s1 \<ge> maxPackets cfg)
      then (s1, 1, [out])
      else
        let s2 = (if sumInt cfg \<noteq> 0 \<and> capTm s1 \<ge> nxtSum \<and> nxtSum > 0
                  then s1\<lparr>pktCnt := 0, no_TS := 0, uniDir := 0, not_tcp := 0, not_v4or6 := 0\<rparr>
                  else s1);
            nxtSum' = (if sumInt cfg \<noteq> 0 \<and> capTm s1 \<ge> nxtSum
                       then fl (capTm s1 + sumInt cfg) else nxtSum);
            s3 = (if capTm s2 \<ge> nxtClean then cleanUp cfg (capTm s2) s2 else s2);
            nxtClean' = (if capTm s2 \<ge> nxtClean then fl (capTm s2 + rtdMaxAge cfg)
                         else nxtClean);
            (sf, k, outs) = run_loop cfg nxtSum' nxtClean' s3 rest
        in (sf, Suc k, out # outs))"

text \<open>\<open>main\<close> enters the loop with \<open>nxtSum = 0\<close> and \<open>nxtClean = 0\<close>.\<close>

definition run_main :: "config \<Rightarrow> packet list \<Rightarrow> state \<times> nat \<times> outcome list" where
  "run_main cfg pkts = run_loop cfg 0 0 init_state pkts"

subsection \<open>Runs, and the keys of a packet\<close>

text \<open>
  Everything that changes the state while \<open>main\<close> runs is one of three events: a call of
  \<open>processPacket\<close>, a call of \<open>cleanUp\<close>, or the reset of the counters after a summary
  (lines 677-681). A run is a list of events, applied in order.
\<close>

datatype event = Packet packet | CleanUp real | Summary

fun do_event :: "config \<Rightarrow> event \<Rightarrow> state \<Rightarrow> state" where
  "do_event cfg (Packet pkt) s = fst (processPacket cfg s pkt)"
| "do_event cfg (CleanUp n) s = cleanUp cfg n s"
| "do_event cfg Summary s =
     s\<lparr>pktCnt := 0, no_TS := 0, uniDir := 0, not_tcp := 0, not_v4or6 := 0\<rparr>"

definition run_events :: "config \<Rightarrow> event list \<Rightarrow> state \<Rightarrow> state" where
  "run_events cfg evs s = fold (do_event cfg) evs s"

definition packets_of :: "event list \<Rightarrow> packet list" where
  "packets_of evs = concat (map (\<lambda>e. case e of Packet p \<Rightarrow> [p] | _ \<Rightarrow> []) evs)"

text \<open>
  The strings \<open>srcstr\<close> and \<open>dststr\<close> of a packet (lines 301-302), for a packet that
  has a TCP header and an IPv4 or IPv6 header.
\<close>

definition flow_strs :: "packet \<Rightarrow> (string \<times> string) option" where
  "flow_strs pkt =
     (case find_tcp pkt of
        None \<Rightarrow> None
      | Some t_tcp \<Rightarrow>
          (case ip_info pkt t_tcp of
             None \<Rightarrow> None
           | Some (ipsstr, ipdstr, payLen, pktLen) \<Rightarrow>
               Some (ipsstr @ '':'' @ to_string (unat (sport t_tcp)),
                     ipdstr @ '':'' @ to_string (unat (dport t_tcp)))))"

text \<open>The key of the packet's flow (\<open>fstr\<close>, line 303) and of its reverse flow (line 320).\<close>

definition fwd_key :: "packet \<Rightarrow> string option" where
  "fwd_key pkt = map_option (\<lambda>(srcstr, dststr). srcstr @ ''+'' @ dststr) (flow_strs pkt)"

definition rev_key :: "packet \<Rightarrow> string option" where
  "rev_key pkt = map_option (\<lambda>(srcstr, dststr). dststr @ ''+'' @ srcstr) (flow_strs pkt)"

text \<open>
  The keys a packet uses in the two tables: \<open>ts_key\<close> is the key its \<open>TSval\<close> is saved
  under (line 352), \<open>ecr_key\<close> the key its \<open>ECR\<close> is looked up with (line 354),
  \<open>seq_key\<close> and \<open>ack_key\<close> the same for the sequence table (lines 371 and 374).
\<close>

definition ts_key :: "packet \<Rightarrow> string option" where
  "ts_key pkt =
     (case (find_tcp pkt, flow_strs pkt) of
        (Some t_tcp, Some (srcstr, dststr)) \<Rightarrow>
          (case tcp_timestamp t_tcp of
             Some (rcv_tsval, rcv_tsecr) \<Rightarrow>
               Some (to_string (unat rcv_tsval) @ ''+'' @ srcstr @ ''+'' @ dststr)
           | None \<Rightarrow> None)
      | _ \<Rightarrow> None)"

definition ecr_key :: "packet \<Rightarrow> string option" where
  "ecr_key pkt =
     (case (find_tcp pkt, flow_strs pkt) of
        (Some t_tcp, Some (srcstr, dststr)) \<Rightarrow>
          (case tcp_timestamp t_tcp of
             Some (rcv_tsval, rcv_tsecr) \<Rightarrow>
               Some (to_string (unat rcv_tsecr) @ ''+'' @ dststr @ ''+'' @ srcstr)
           | None \<Rightarrow> None)
      | _ \<Rightarrow> None)"

definition seq_key :: "packet \<Rightarrow> string option" where
  "seq_key pkt =
     (case find_tcp pkt of
        None \<Rightarrow> None
      | Some t_tcp \<Rightarrow>
          (case ip_info pkt t_tcp of
             None \<Rightarrow> None
           | Some (ipsstr, ipdstr, payLen, pktLen) \<Rightarrow>
               Some (to_string (unat (seq t_tcp + payLen)) @ ''+''
                     @ (ipsstr @ '':'' @ to_string (unat (sport t_tcp))) @ ''+''
                     @ (ipdstr @ '':'' @ to_string (unat (dport t_tcp))))))"

definition ack_key :: "packet \<Rightarrow> string option" where
  "ack_key pkt =
     (case (find_tcp pkt, flow_strs pkt) of
        (Some t_tcp, Some (srcstr, dststr)) \<Rightarrow>
          Some (to_string (unat (ack_seq t_tcp)) @ ''+'' @ dststr @ ''+'' @ srcstr)
      | _ \<Rightarrow> None)"

text \<open>
  The address strings libtins renders (dotted decimal, or hexadecimal groups with
  colons) never contain the separator \<open>+\<close> of the keys.
\<close>

definition wf_packet :: "packet \<Rightarrow> bool" where
  "wf_packet pkt =
     (case flow_strs pkt of
        None \<Rightarrow> True
      | Some (srcstr, dststr) \<Rightarrow> CHR ''+'' \<notin> set srcstr \<and> CHR ''+'' \<notin> set dststr)"

text \<open>Whether the flow with key \<open>K\<close> has a record that is marked as having a reverse flow.\<close>

definition bidirectional :: "state \<Rightarrow> string \<Rightarrow> bool" where
  "bidirectional s K = (case map_of (flows s) K of Some fr \<Rightarrow> revFlow fr | None \<Rightarrow> False)"

subsection \<open>Packets for the examples\<close>

text \<open>
  An Ethernet frame (14 bytes of header) with an IPv4 header of 20 bytes and a TCP header
  of 32 bytes: capture time, source address and port, destination address and port,
  sequence and acknowledgment number, flags, payload length, timestamp option.
\<close>

definition tcp_packet ::
  "int \<Rightarrow> int \<Rightarrow> string \<Rightarrow> nat \<Rightarrow> string \<Rightarrow> nat \<Rightarrow> nat \<Rightarrow> nat \<Rightarrow> 12 word \<Rightarrow> nat \<Rightarrow>
   (u32 \<times> u32) option \<Rightarrow> packet" where
  "tcp_packet secs usecs src sp dst dpt seqno ackno flgs payload ts =
     \<lparr>ts_seconds = secs, ts_microseconds = usecs, pdu_header_size = 14,
      find_tcp = Some \<lparr>sport = of_nat sp, dport = of_nat dpt, seq = of_nat seqno,
                       ack_seq = of_nat ackno, flags = flgs, tcp_header_size = 32,
                       tcp_timestamp = ts\<rparr>,
      find_ip = Some \<lparr>src_addr = src, dst_addr = dst, tot_len = of_nat (52 + payload),
                      ip_header_size = 20\<rparr>,
      find_ipv6 = None\<rparr>"

definition hostA :: string where "hostA = ''10.0.0.1''"
definition hostB :: string where "hostB = ''10.0.0.2''"

text \<open>
  A SYN from A to B, its SYN-ACK one second later, and an ACK ten seconds after that; the
  state is the one \<open>main\<close> has reached when it calls \<open>cleanUp\<close> after the third packet
  (and after the summary that packet triggers).
\<close>

definition syn_p1 :: packet where
  "syn_p1 = tcp_packet 100 0 hostA 1234 hostB 80 1000 0 TCP_SYN 0 (Some (5, 0))"




text \<open>A pure ACK from B to A; the state after it has been processed once.\<close>

definition dup_p :: packet where
  "dup_p = tcp_packet 100 0 hostB 80 hostA 1234 7000 5000 TCP_ACK 0 None"

definition dup_state :: state where
  "dup_state = run_events default_config [Packet dup_p] init_state"

text \<open>
  The out-of-order scenario: on one flow, \<open>seq = 1100\<close> with 100 bytes at 1.0 s, then
  \<open>seq = 1000\<close> with 100 bytes at 1.1 s; and, instead of the second, a pure ACK with
  \<open>seq = 1000\<close> that repeats the acknowledgment number. The capture time of the second
  packet is the double \<open>100000 * 1e-6\<close>, which is \<open>7205759403792793 / 2 ^ 56\<close>, just
  below one tenth.
\<close>

definition ooo_p1 :: packet where
  "ooo_p1 = tcp_packet 1 0 hostA 1234 hostB 80 1100 1 TCP_ACK 100 None"

definition ooo_p2 :: packet where
  "ooo_p2 = tcp_packet 1 100000 hostA 1234 hostB 80 1000 1 TCP_ACK 100 None"

definition ooo_p3 :: packet where
  "ooo_p3 = tcp_packet 1 100000 hostA 1234 hostB 80 1000 1 TCP_ACK 0 None"

definition ooo_state :: state where
  "ooo_state = run_events default_config [Packet ooo_p1] init_state"


definition data_p2 :: packet where
  "data_p2 = tcp_packet 101 0 hostB 80 hostA 1234 5000 1001 TCP_ACK 100 (Some (7, 5))"

definition ack_p3 :: packet where
  "ack_p3 = tcp_packet 102 0 hostA 1234 hostB 80 1001 5100 TCP_ACK 0 (Some (6, 7))"


text \<open>
  A capture whose first two packets carry the same timestamp, with no microseconds: A's
  SYN and, at once, 100 bytes of data from B. B's packet is saved at capture time 0. A's
  ACK follows a second later.
\<close>

definition zero_p2 :: packet where
  "zero_p2 = tcp_packet 100 0 hostB 80 hostA 1234 5000 1001 TCP_ACK 100 (Some (7, 5))"

definition zero_p3 :: packet where
  "zero_p3 = tcp_packet 101 0 hostA 1234 hostB 80 1001 5100 TCP_ACK 0 (Some (6, 7))"

definition zero_state :: state where
  "zero_state = run_events default_config [Packet syn_p1, Packet zero_p2] init_state"

text \<open>
  The same exchange with no local filter, and what follows it: a \<open>cleanUp\<close>, 100 more
  bytes from B, the reset of the counters, and then A's ACK once more, with the same
  \<open>ECR\<close> and the same acknowledgment number as before.
\<close>

definition pair_state :: state where
  "pair_state = run_events default_config [Packet syn_p1, Packet data_p2] init_state"

definition more_p4 :: packet where
  "more_p4 = tcp_packet 103 0 hostB 80 hostA 1234 5100 1001 TCP_ACK 100 (Some (8, 6))"

definition again_p5 :: packet where
  "again_p5 = tcp_packet 104 0 hostA 1234 hostB 80 1001 5100 TCP_ACK 0 (Some (9, 7))"

definition later_events :: "event list" where
  "later_events = [CleanUp 2, Packet more_p4, Summary]"

text \<open>
  What the flow table records about the packets \<open>S\<close> processed so far: every record was
  created by a packet of its flow, and a record is marked as having a reverse flow only
  when a packet of the reverse direction has been processed.
\<close>

definition flows_inv :: "packet set \<Rightarrow> (string \<times> flowRec) list \<Rightarrow> bool" where
  "flows_inv S tbl =
     (\<forall>(K, fr) \<in> set tbl.
        (\<exists>q \<in> S. fwd_key q = Some K) \<and> (revFlow fr \<longrightarrow> (\<exists>q \<in> S. rev_key q = Some K)))"

text \<open>A second packet from A to B, with a timestamp option, after A's SYN.\<close>

definition uni_p2 :: packet where
  "uni_p2 = tcp_packet 101 0 hostA 1234 hostB 80 1001 0 TCP_ACK 100 (Some (6, 3))"

definition uni_state :: state where
  "uni_state = run_events default_config [Packet syn_p1] init_state"

text \<open>
  A run with \<open>-c 3\<close> and the summaries left on, and the same run with \<open>-q\<close>; the packets
  are pure ACKs of one flow, the first at second 100 and the others from second 111 on.
\<close>

definition count_config :: config where
  "count_config = default_config\<lparr>maxPackets := 3\<rparr>"

definition quiet_count_config :: config where
  "quiet_count_config = default_config\<lparr>maxPackets := 3, sumInt := 0\<rparr>"

definition tick :: "int \<Rightarrow> packet" where
  "tick secs = tcp_packet secs 0 hostA 1234 hostB 80 1000 1 TCP_ACK 0 None"

definition ticks :: "packet list" where
  "ticks = [tick 100, tick 111, tick 112, tick 113, tick 114, tick 115]"

text \<open>
  SYNs from A to B's port 80, all with the same capture time, the \<open>i\<close>-th from source
  port \<open>1024 + i\<close>: every packet is the first of a new flow.
\<close>

definition flood_pkt :: "nat \<Rightarrow> packet" where
  "flood_pkt i = tcp_packet 100 0 hostA (1024 + i) hostB 80 1000 0 TCP_SYN 0 None"

definition flood :: "nat \<Rightarrow> packet list" where
  "flood n = map flood_pkt [0..<n]"

definition flood_key :: "nat \<Rightarrow> string" where
  "flood_key i = ''10.0.0.1:'' @ to_string (1024 + i) @ ''+10.0.0.2:80''"

section \<open>Properties\<close>

subsection \<open>Rounding\<close>

lemma p2_pos [simp]: "0 < (2 :: real) powi n"
  by (simp add: power_int_def)

lemma p2_nonneg [simp]: "0 \<le> (2 :: real) powi n"
  by (simp add: power_int_def)

lemma p2_add: "(2 :: real) powi (a + b) = 2 powi a * 2 powi b"
  by (rule power_int_add) simp


lemma p2_le: "a \<le> b \<Longrightarrow> (2 :: real) powi a \<le> 2 powi b"
  by (rule power_int_increasing) simp_all

lemma p2_less: "a < b \<Longrightarrow> (2 :: real) powi a < 2 powi b"
  by (rule power_int_strict_increasing) simp_all

lemma p2_less_D: "(2 :: real) powi a < 2 powi b \<Longrightarrow> a < b"
  using p2_le[of b a] by (cases "a < b") auto

lemma ilog2_bounds:
  assumes "0 < x"
  shows "2 powi ilog2 x \<le> x" and "x < 2 powi (ilog2 x + 1)"
proof -
  have "2 powi ilog2 x \<le> x \<and> x < 2 powi (ilog2 x + 1)"
  proof (cases "1 \<le> x")
    case True
    define n where "n = \<lfloor>x\<rfloor>"
    have n: "1 \<le> n" "of_int n \<le> x" "x < of_int n + 1"
      using True by (simp_all add: n_def)
    then have b: "2 ^ nat (bitlen n - 1) \<le> n" "n < 2 ^ nat (bitlen n)"
      using bitlen_bounds[of n] by simp_all
    have b1: "1 \<le> bitlen n" using n(1) by (simp add: bitlen_alt_def)
    have e: "ilog2 x = bitlen n - 1" using True by (simp add: ilog2_def n_def)
    have "(2 :: real) powi (bitlen n - 1) = 2 ^ nat (bitlen n - 1)"
      using b1 by (simp add: power_int_nonneg_exp)
    also have "\<dots> = of_int (2 ^ nat (bitlen n - 1))" by simp
    also have "\<dots> \<le> of_int n" using b(1) by (simp only: of_int_le_iff)
    finally have lo: "2 powi (bitlen n - 1) \<le> x" using n(2) by simp
    have "n + 1 \<le> 2 ^ nat (bitlen n)" using b(2) by simp
    then have "(of_int (n + 1) :: real) \<le> of_int (2 ^ nat (bitlen n))"
      by (simp only: of_int_le_iff)
    also have "\<dots> = 2 powi (bitlen n)" using b1 by (simp add: power_int_nonneg_exp)
    finally have hi: "x < 2 powi (bitlen n)" using n(3) by simp
    from lo hi show ?thesis by (simp add: e)
  next
    case False
    define m where "m = \<lceil>1 / x\<rceil> - 1"
    have y: "1 < 1 / x" using False assms by simp
    have m: "1 \<le> m" "of_int m < 1 / x" "1 / x \<le> of_int m + 1"
      using y by (simp_all add: m_def) linarith+
    then have b: "2 ^ nat (bitlen m - 1) \<le> m" "m < 2 ^ nat (bitlen m)"
      using bitlen_bounds[of m] by simp_all
    have b1: "1 \<le> bitlen m" using m(1) by (simp add: bitlen_alt_def)
    have e: "ilog2 x = - bitlen m" using False by (simp add: ilog2_def m_def)
    have "m + 1 \<le> 2 ^ nat (bitlen m)" using b(2) by simp
    then have "(of_int (m + 1) :: real) \<le> of_int (2 ^ nat (bitlen m))"
      by (simp only: of_int_le_iff)
    also have "\<dots> = 2 powi (bitlen m)" using b1 by (simp add: power_int_nonneg_exp)
    finally have "1 / x \<le> 2 powi (bitlen m)" using m(3) by simp
    then have lo: "2 powi (- bitlen m) \<le> x"
      using assms by (simp add: power_int_minus field_simps)
    have "(2 :: real) powi (bitlen m - 1) = 2 ^ nat (bitlen m - 1)"
      using b1 by (simp add: power_int_nonneg_exp)
    also have "\<dots> = of_int (2 ^ nat (bitlen m - 1))" by simp
    also have "\<dots> \<le> of_int m" using b(1) by (simp only: of_int_le_iff)
    finally have "2 powi (bitlen m - 1) < 1 / x" using m(2) by simp
    then have "x * 2 powi (bitlen m - 1) < 1" using assms by (simp add: field_simps)
    then have "x < 1 / 2 powi (bitlen m - 1)"
      by (simp add: pos_less_divide_eq)
    also have "\<dots> = 2 powi (- (bitlen m - 1))"
      by (simp only: power_int_minus_divide)
    finally have hi: "x < 2 powi (- bitlen m + 1)" by simp
    from lo hi show ?thesis by (simp add: e)
  qed
  then show "2 powi ilog2 x \<le> x" and "x < 2 powi (ilog2 x + 1)" by simp_all
qed

lemma ilog2_unique:
  assumes "2 powi e \<le> x" "x < 2 powi (e + 1)"
  shows "ilog2 x = e"
proof -
  have "0 < x" using assms(1) p2_pos[of e] by linarith
  note b = ilog2_bounds[OF this]
  from assms(1) b(2) have "2 powi e < (2 :: real) powi (ilog2 x + 1)" by linarith
  then have 1: "e < ilog2 x + 1" by (rule p2_less_D)
  from b(1) assms(2) have "2 powi ilog2 x < (2 :: real) powi (e + 1)" by linarith
  then have 2: "ilog2 x < e + 1" by (rule p2_less_D)
  from 1 2 show ?thesis by simp
qed


lemma rne_of_int [simp]: "rne (of_int k) = k"
  by (simp add: rne_def)

lemma rne_ge: "of_int a \<le> y \<Longrightarrow> a \<le> rne y"
proof -
  assume "of_int a \<le> y"
  then have "a \<le> \<lfloor>y\<rfloor>" by (simp add: le_floor_iff)
  then show ?thesis unfolding rne_def Let_def by auto
qed

lemma rne_le: "y \<le> of_int b \<Longrightarrow> rne y \<le> b"
proof (cases "y = of_int b")
  case True then show ?thesis by simp
next
  case False
  assume "y \<le> of_int b"
  with False have "y < of_int b" by simp
  then have "\<lfloor>y\<rfloor> < b" by (simp add: floor_less_iff)
  then show ?thesis unfolding rne_def Let_def by auto
qed

lemma fl_0 [simp]: "fl 0 = 0"
  by (simp add: fl_def)

lemma fl_eval:
  assumes "2 powi e \<le> \<bar>x\<bar>" "\<bar>x\<bar> < 2 powi (e + 1)"
  shows "fl x = of_int (rne (x * 2 powi (52 - e))) * 2 powi (e - 52)"
proof -
  have "0 < \<bar>x\<bar>" using assms(1) p2_pos[of e] by linarith
  then have "x \<noteq> 0" by simp
  then show ?thesis by (simp add: fl_def Let_def ilog2_unique[OF assms])
qed



lemma fl_repr:
  assumes "\<bar>k\<bar> \<le> 2 ^ 53"
  shows "fl (of_int k * 2 powi j) = of_int k * 2 powi j"
proof (cases "k = 0")
  case True then show ?thesis by simp
next
  case False
  define x :: real where "x = of_int k * 2 powi j"
  define e where "e = ilog2 \<bar>x\<bar>"
  have x0: "x \<noteq> 0" using False by (simp add: x_def)
  have ax: "\<bar>x\<bar> = of_int \<bar>k\<bar> * 2 powi j" by (simp add: x_def abs_mult)
  have b: "2 powi e \<le> \<bar>x\<bar>" "\<bar>x\<bar> < 2 powi (e + 1)"
    using ilog2_bounds[of "\<bar>x\<bar>"] x0 by (simp_all add: e_def)
  have "(of_int \<bar>k\<bar> :: real) \<le> of_int (2 ^ 53)" using assms by (simp only: of_int_le_iff)
  then have k53: "(of_int \<bar>k\<bar> :: real) \<le> 2 powi 53" by simp
  have "1 \<le> \<bar>k\<bar>" using False by simp
  then have "(of_int 1 :: real) \<le> of_int \<bar>k\<bar>" by (simp only: of_int_le_iff)
  then have "1 * 2 powi j \<le> (of_int \<bar>k\<bar> :: real) * 2 powi j"
    by (intro mult_right_mono) simp_all
  then have "2 powi j \<le> \<bar>x\<bar>" unfolding ax by simp
  with b(2) have "2 powi j < (2 :: real) powi (e + 1)" by linarith
  then have je: "j \<le> e" using p2_less_D by fastforce
  have "\<bar>x\<bar> \<le> 2 powi 53 * 2 powi j" unfolding ax using k53 by (intro mult_right_mono) simp_all
  then have "\<bar>x\<bar> \<le> 2 powi (53 + j)" by (simp only: p2_add)
  with b(1) have "2 powi e < (2 :: real) powi (53 + j + 1)"
    using p2_less[of "53 + j" "53 + j + 1"] by linarith
  then have ej: "e \<le> 53 + j" using p2_less_D by fastforce
  have fx: "fl x = of_int (rne (x * 2 powi (52 - e))) * 2 powi (e - 52)"
    using x0 by (simp add: fl_def Let_def e_def)
  have "\<exists>i. x * 2 powi (52 - e) = of_int i"
  proof (cases "e \<le> 52 + j")
    case True
    then have "j + (52 - e) = int (nat (j + 52 - e))" by simp
    then have "(2 :: real) powi (j + (52 - e)) = 2 ^ nat (j + 52 - e)"
      by (simp only: power_int_of_nat)
    then have "x * 2 powi (52 - e) = of_int (k * 2 ^ nat (j + 52 - e))"
      by (simp add: x_def p2_add[symmetric] mult.assoc del: power_int_of_nat)
    then show ?thesis ..
  next
    case False
    with ej have e: "e = 53 + j" by simp
    have "2 powi (53 + j) \<le> of_int \<bar>k\<bar> * (2 :: real) powi j" using b(1) unfolding ax e .
    then have "(2 :: real) powi 53 \<le> of_int \<bar>k\<bar>" by (simp add: p2_add)
    then have "(of_int (2 ^ 53) :: real) \<le> of_int \<bar>k\<bar>" by simp
    then have "2 ^ 53 \<le> \<bar>k\<bar>" by (simp only: of_int_le_iff)
    with assms have "\<bar>k\<bar> = 2 ^ 53" by simp
    then have "k = 2 * 2 ^ 52 \<or> k = 2 * (- (2 ^ 52))" by (auto simp: abs_if split: if_splits)
    then obtain i where i: "k = 2 * i" by blast
    have "x * 2 powi (52 - e) = of_int k * (2 powi j * 2 powi (- 1 - j))"
      by (simp add: x_def e mult.assoc)
    also have "2 powi j * (2 :: real) powi (- 1 - j) = 2 powi (- 1)"
      by (simp only: p2_add[symmetric]) simp
    finally have "x * 2 powi (52 - e) = of_int i" by (simp add: i)
    then show ?thesis ..
  qed
  then obtain i where i: "x * 2 powi (52 - e) = of_int i" ..
  have "fl x = (x * 2 powi (52 - e)) * 2 powi (e - 52)"
    unfolding fx i by simp
  also have "\<dots> = x" by (simp add: mult.assoc p2_add[symmetric])
  finally show ?thesis by (simp add: x_def)
qed


lemma fl_of_int: "\<bar>k\<bar> \<le> 2 ^ 53 \<Longrightarrow> fl (of_int k) = of_int k"
  using fl_repr[of k 0] by simp

lemma fl_1 [simp]: "fl 1 = 1"
  using fl_of_int[of 1] by simp

lemma fl_numeral [simp]: "(numeral n :: int) \<le> 2 ^ 53 \<Longrightarrow> fl (numeral n) = numeral n"
  using fl_of_int[of "numeral n"] by simp

lemma fl_neg_numeral [simp]:
  "(numeral n :: int) \<le> 2 ^ 53 \<Longrightarrow> fl (- numeral n) = - numeral n"
  using fl_of_int[of "- numeral n"] by simp


subsection \<open>The tables\<close>

lemma map_of_addTS:
  "map_of (addTS k t tbl) k' =
     (if k' = k \<and> map_of tbl k = None then Some t else map_of tbl k')"
  by (auto simp: addTS_def map_add_def split: option.splits)

lemma map_of_addSeq:
  "map_of (addSeq k t tbl) k' =
     (if k' = k \<and> map_of tbl k = None then Some t else map_of tbl k')"
  by (auto simp: addSeq_def map_add_def split: option.splits)

lemma fst_getTStm: "fst (getTStm k tbl) = (case map_of tbl k of Some t \<Rightarrow> t | None \<Rightarrow> - 1)"
  by (simp add: getTStm_def split: option.splits)

lemma map_of_getTStm:
  "map_of (snd (getTStm k tbl)) k' = (if k' = k then None else map_of tbl k')"
  by (auto simp: getTStm_def AList.delete_conv split: option.splits)

lemma fst_getSeqTm: "fst (getSeqTm k tbl) = (case map_of tbl k of Some t \<Rightarrow> t | None \<Rightarrow> - 1)"
  by (simp add: getSeqTm_def split: option.splits)

lemma map_of_getSeqTm:
  "map_of (snd (getSeqTm k tbl)) k' = (if k' = k then None else map_of tbl k')"
  by (auto simp: getSeqTm_def AList.delete_conv split: option.splits)


lemma map_of_filter_None: "map_of tbl k = None \<Longrightarrow> map_of (filter P tbl) k = None"
  by (induction tbl) (auto split: if_splits)

lemma map_of_snoc:
  "map_of (xs @ [(k, v)]) k' =
     (case map_of xs k' of Some w \<Rightarrow> Some w | None \<Rightarrow> if k' = k then Some v else None)"
  by (simp add: map_add_def split: option.splits)

lemma set_map_entry:
  "(K, r) \<in> set (AList.map_entry k f xs) \<Longrightarrow>
   \<exists>r0. (K, r0) \<in> set xs \<and> (r = r0 \<or> (K = k \<and> r = f r0))"
  by (induction xs) (auto split: if_splits)

lemma map_fst_map_entry: "map fst (AList.map_entry k f xs) = map fst xs"
  by (induction xs) auto

subsection \<open>The steps of the classification\<close>

lemma ts_rtd_bytesSnt [simp]:
  "ts_rtd cfg now ipd f src dst (fr\<lparr>bytesSnt := b\<rparr>) t tbl = ts_rtd cfg now ipd f src dst fr t tbl"
  by (simp add: ts_rtd_def split: option.splits)

lemma seq_rtd_bytesSnt [simp]:
  "seq_rtd cfg now ipd f src dst (fr\<lparr>bytesSnt := b\<rparr>) t pay tbl =
   seq_rtd cfg now ipd f src dst fr t pay tbl"
  by (simp add: seq_rtd_def)

lemma seq_delta_bytesSnt [simp]: "seq_delta (fr\<lparr>bytesSnt := b\<rparr>) x = seq_delta fr x"
  by (simp add: seq_delta_def)

lemma dup_ack_upd [simp]:
  "dup_ack now (fr\<lparr>bytesSnt := b, lastSeq := q\<rparr>) t pay = dup_ack now fr t pay"
  by (simp add: dup_ack_def)

lemma classify_fst:
  "fst (classify cfg s fr t ipd src dst pay len) =
     s\<lparr>uniDir := (if \<not> revFlow fr then uniDir s + 1 else uniDir s),
       no_TS := (if tcp_timestamp t = None then no_TS s + 1 else no_TS s),
       tsTbl := fst (ts_rtd cfg (capTm s) ipd (src @ ''+'' @ dst) src dst fr t (tsTbl s)),
       seqTbl := fst (seq_rtd cfg (capTm s) ipd (src @ ''+'' @ dst) src dst fr t pay (seqTbl s)),
       flows := AList.map_entry (src @ ''+'' @ dst)
                  (\<lambda>_. fr\<lparr>bytesSnt := fl (bytesSnt fr + real (unat len)),
                           lastSeq := (if flags t AND TCP_SYN \<noteq> 0 \<or> flags t AND TCP_FIN \<noteq> 0
                                       then seq t + 1 else seq t),
                           lastPay := pay, lastTm := capTm s, lastAck := ack_seq t\<rparr>)
                  (flows s)\<rparr>"
  by (simp add: classify_def Let_def split_beta)

lemma classify_flags:
  "pd (snd (classify cfg s fr t ipd src dst pay len)) =
     fst (snd (ts_rtd cfg (capTm s) ipd (src @ ''+'' @ dst) src dst fr t (tsTbl s)))"
  "sd (snd (classify cfg s fr t ipd src dst pay len)) =
     fst (snd (seq_rtd cfg (capTm s) ipd (src @ ''+'' @ dst) src dst fr t pay (seqTbl s)))"
  "ds (snd (classify cfg s fr t ipd src dst pay len)) = (seq_delta fr (seq t) > 0)"
  "dp (snd (classify cfg s fr t ipd src dst pay len)) = snd (dup_ack (capTm s) fr t pay)"
  by (simp_all add: classify_def Let_def split_beta)

lemma classify_printed:
  "printed (snd (classify cfg s fr t ipd src dst pay len)) =
     (let v = snd (classify cfg s fr t ipd src dst pay len) in
      if \<not> pd v \<and> \<not> sd v \<and> \<not> ds v \<and> \<not> dp v then None
      else if quick cfg \<and> \<not> pd v \<and> \<not> sd v then None
      else Some \<lparr>o_capTm = capTm s,
                 o_prtd = (if pd v
                           then Some (snd (snd (ts_rtd cfg (capTm s) ipd (src @ ''+'' @ dst) src dst fr t (tsTbl s))))
                           else None),
                 o_srtd = (if sd v
                           then Some (snd (snd (seq_rtd cfg (capTm s) ipd (src @ ''+'' @ dst) src dst fr t pay (seqTbl s))))
                           else None),
                 o_dseq = seq_delta fr (seq t),
                 o_dupDiff = fst (dup_ack (capTm s) fr t pay),
                 o_payLen = pay,
                 o_bytesSnt = fl (bytesSnt fr + real (unat len)),
                 o_flow = src @ ''+'' @ dst\<rparr>)"
  by (simp add: classify_def Let_def split_beta)

lemma classify_printed_rtt:
  assumes "printed (snd (classify cfg s fr t ipd src dst pay len)) = Some ob"
  shows "(o_prtd ob \<noteq> None \<longleftrightarrow> pd (snd (classify cfg s fr t ipd src dst pay len))) \<and>
         (o_srtd ob \<noteq> None \<longleftrightarrow> sd (snd (classify cfg s fr t ipd src dst pay len)))"
  using assms by (auto simp add: classify_printed Let_def split: if_splits)

lemma classify_bidirectional:
  assumes "map_of (flows s) (src @ ''+'' @ dst) = Some fr"
  shows "bidirectional (fst (classify cfg s fr t ipd src dst pay len)) (src @ ''+'' @ dst) = revFlow fr"
  using assms by (simp add: classify_fst bidirectional_def map_of_map_entry)

lemma ts_rtd_uni: "\<not> revFlow fr \<Longrightarrow> ts_rtd cfg now ipd f src dst fr t tbl = (tbl, False, 0)"
  by (simp add: ts_rtd_def split: option.splits)

lemma seq_rtd_uni: "\<not> revFlow fr \<Longrightarrow> seq_rtd cfg now ipd f src dst fr t pay tbl = (tbl, False, 0)"
  by (simp add: seq_rtd_def)

text \<open>A key that is absent from a table stays absent unless the packet saves under it.\<close>

lemma ts_rtd_absent:
  assumes "map_of tbl k = None"
    and "\<And>tsval ecr. tcp_timestamp t = Some (tsval, ecr) \<Longrightarrow> k \<noteq> to_string (unat tsval) @ ''+'' @ f"
  shows "map_of (fst (ts_rtd cfg now ipd f src dst fr t tbl)) k = None"
  using assms
  by (auto simp add: ts_rtd_def pping_def Let_def split_beta map_of_getTStm map_of_addTS
      split: option.splits)

lemma seq_rtd_absent:
  assumes "map_of tbl k = None" "k \<noteq> to_string (unat (seq t + pay)) @ ''+'' @ f"
  shows "map_of (fst (seq_rtd cfg now ipd f src dst fr t pay tbl)) k = None"
  using assms
  by (auto simp add: seq_rtd_def Let_def split_beta map_of_getSeqTm map_of_addSeq)

lemma ts_rtd_no_sample:
  assumes "map_of tbl k = None" "k = to_string (unat ecr) @ ''+'' @ dst @ ''+'' @ src"
    and "tcp_timestamp t = Some (tsval, ecr)" "k \<noteq> to_string (unat tsval) @ ''+'' @ f"
  shows "\<not> fst (snd (ts_rtd cfg now ipd f src dst fr t tbl))"
  using assms
  by (auto simp add: ts_rtd_def pping_def Let_def split_beta fst_getTStm map_of_addTS)

lemma seq_rtd_no_sample:
  assumes "map_of tbl k = None" "k = to_string (unat (ack_seq t)) @ ''+'' @ dst @ ''+'' @ src"
    and "k \<noteq> to_string (unat (seq t + pay)) @ ''+'' @ f"
  shows "\<not> fst (snd (seq_rtd cfg now ipd f src dst fr t pay tbl))"
  using assms
  by (auto simp add: seq_rtd_def Let_def split_beta fst_getSeqTm map_of_addSeq)

lemma ts_rtd_sample_takes:
  assumes "fst (snd (ts_rtd cfg now ipd f src dst fr t tbl))" "tcp_timestamp t = Some (tsval, ecr)"
  shows "map_of (fst (ts_rtd cfg now ipd f src dst fr t tbl))
           (to_string (unat ecr) @ ''+'' @ dst @ ''+'' @ src) = None"
  using assms
  by (auto simp add: ts_rtd_def pping_def Let_def split_beta map_of_getTStm split: if_splits)

lemma seq_rtd_sample_takes:
  assumes "fst (snd (seq_rtd cfg now ipd f src dst fr t pay tbl))"
  shows "map_of (fst (seq_rtd cfg now ipd f src dst fr t pay tbl))
           (to_string (unat (ack_seq t)) @ ''+'' @ dst @ ''+'' @ src) = None"
  using assms
  by (auto simp add: seq_rtd_def Let_def split_beta map_of_getSeqTm split: if_splits)

subsection \<open>Calls of processPacket\<close>

lemma set_capTm_flows [simp]:
  "flows (set_capTm pkt s) = flows s" "tsTbl (set_capTm pkt s) = tsTbl s"
  "seqTbl (set_capTm pkt s) = seqTbl s" "uniDir (set_capTm pkt s) = uniDir s"
  "flowCnt (set_capTm pkt s) = flowCnt s"
  by (simp_all add: set_capTm_def)

lemma get_flow_existing:
  "map_of (flows s) fstr = Some fr \<Longrightarrow> get_flow cfg fstr rstr s = Some (s, fr)"
  by (simp add: get_flow_def)

lemma get_flow_Some:
  assumes "get_flow cfg fstr rstr s = Some (s3, fr0)"
  shows "map_of (flows s3) fstr = Some fr0"
    and "tsTbl s3 = tsTbl s" and "seqTbl s3 = seqTbl s" and "capTm s3 = capTm s"
    and "uniDir s3 = uniDir s" and "no_TS s3 = no_TS s" and "pktCnt s3 = pktCnt s"
    and "offTm s3 = offTm s" and "startm s3 = startm s"
  using assms
  by (auto simp: get_flow_def Let_def map_of_map_entry map_of_snoc
           simp del: map_of_append split: option.splits if_splits)

lemma processPacket_eq:
  assumes "find_tcp pkt = Some t" "ip_info pkt t = Some (ips, ipd, pay, len)"
    and "src = ips @ '':'' @ to_string (unat (sport t))"
    and "dst = ipd @ '':'' @ to_string (unat (dport t))"
    and "s2 = set_capTm pkt (s\<lparr>pktCnt := pktCnt s + 1\<rparr>)"
  shows "processPacket cfg s pkt =
           (case get_flow cfg (src @ ''+'' @ dst) (dst @ ''+'' @ src) s2 of
              None \<Rightarrow> (s2, FlowDropped)
            | Some (s3, fr0) \<Rightarrow>
                (fst (classify cfg s3 fr0 t ipd src dst pay len),
                 Classified (snd (classify cfg s3 fr0 t ipd src dst pay len))))"
  using assms by (simp add: processPacket_def Let_def split_beta split: option.splits)

lemma flow_strs_eq:
  assumes "find_tcp pkt = Some t" "ip_info pkt t = Some (ips, ipd, pay, len)"
  shows "flow_strs pkt = Some (ips @ '':'' @ to_string (unat (sport t)),
                               ipd @ '':'' @ to_string (unat (dport t)))"
  using assms by (simp add: flow_strs_def)

lemma packet_keys:
  assumes "find_tcp pkt = Some t" "ip_info pkt t = Some (ips, ipd, pay, len)"
    and "src = ips @ '':'' @ to_string (unat (sport t))"
    and "dst = ipd @ '':'' @ to_string (unat (dport t))"
  shows "fwd_key pkt = Some (src @ ''+'' @ dst)"
    and "rev_key pkt = Some (dst @ ''+'' @ src)"
    and "ts_key pkt = (case tcp_timestamp t of
                         Some (tsval, ecr) \<Rightarrow> Some (to_string (unat tsval) @ ''+'' @ src @ ''+'' @ dst)
                       | None \<Rightarrow> None)"
    and "ecr_key pkt = (case tcp_timestamp t of
                          Some (tsval, ecr) \<Rightarrow> Some (to_string (unat ecr) @ ''+'' @ dst @ ''+'' @ src)
                        | None \<Rightarrow> None)"
    and "seq_key pkt = Some (to_string (unat (seq t + pay)) @ ''+'' @ src @ ''+'' @ dst)"
    and "ack_key pkt = Some (to_string (unat (ack_seq t)) @ ''+'' @ dst @ ''+'' @ src)"
  using assms
  by (simp_all add: fwd_key_def rev_key_def ts_key_def ecr_key_def seq_key_def ack_key_def
      flow_strs_def split: option.splits)

text \<open>What a call that reaches the classification has done.\<close>

lemma processPacket_Classified:
  assumes "processPacket cfg s pkt = (s', Classified v)"
    and "find_tcp pkt = Some t" "ip_info pkt t = Some (ips, ipd, pay, len)"
    and "src = ips @ '':'' @ to_string (unat (sport t))"
    and "dst = ipd @ '':'' @ to_string (unat (dport t))"
  obtains s3 fr0 where
    "get_flow cfg (src @ ''+'' @ dst) (dst @ ''+'' @ src)
       (set_capTm pkt (s\<lparr>pktCnt := pktCnt s + 1\<rparr>)) = Some (s3, fr0)"
    "s' = fst (classify cfg s3 fr0 t ipd src dst pay len)"
    "v = snd (classify cfg s3 fr0 t ipd src dst pay len)"
    "tsTbl s3 = tsTbl s" "seqTbl s3 = seqTbl s" "uniDir s3 = uniDir s"
    "capTm s3 = capTm s'"
    "map_of (flows s3) (src @ ''+'' @ dst) = Some fr0"
    "bidirectional s' (src @ ''+'' @ dst) = revFlow fr0"
proof -
  let ?s2 = "set_capTm pkt (s\<lparr>pktCnt := pktCnt s + 1\<rparr>)"
  from assms(1) processPacket_eq[OF assms(2,3,4,5) refl, of cfg s]
  obtain s3 fr0 where g: "get_flow cfg (src @ ''+'' @ dst) (dst @ ''+'' @ src) ?s2 = Some (s3, fr0)"
    and s': "s' = fst (classify cfg s3 fr0 t ipd src dst pay len)"
    and v: "v = snd (classify cfg s3 fr0 t ipd src dst pay len)"
    by (auto split: option.splits)
  note gf = get_flow_Some[OF g]
  have "capTm s3 = capTm s'" by (simp add: s' classify_fst)
  moreover have "bidirectional s' (src @ ''+'' @ dst) = revFlow fr0"
    unfolding s' by (rule classify_bidirectional[OF gf(1)])
  ultimately show thesis
    using that[OF g s' v] gf by simp
qed

lemma processPacket_existing:
  assumes "find_tcp pkt = Some t" "ip_info pkt t = Some (ips, ipd, pay, len)"
    and "fwd_key pkt = Some K" "map_of (flows s) K = Some fr"
    and "src = ips @ '':'' @ to_string (unat (sport t))"
    and "dst = ipd @ '':'' @ to_string (unat (dport t))"
    and "s2 = set_capTm pkt (s\<lparr>pktCnt := pktCnt s + 1\<rparr>)"
  shows "processPacket cfg s pkt =
           (fst (classify cfg s2 fr t ipd src dst pay len),
            Classified (snd (classify cfg s2 fr t ipd src dst pay len)))"
    and "K = src @ ''+'' @ dst"
proof -
  from assms(3) flow_strs_eq[OF assms(1,2)] show K: "K = src @ ''+'' @ dst"
    by (simp add: fwd_key_def assms(5,6))
  have "get_flow cfg (src @ ''+'' @ dst) (dst @ ''+'' @ src) s2 = Some (s2, fr)"
    using assms(4) K by (simp add: get_flow_existing assms(7))
  then show "processPacket cfg s pkt =
           (fst (classify cfg s2 fr t ipd src dst pay len),
            Classified (snd (classify cfg s2 fr t ipd src dst pay len)))"
    using processPacket_eq[OF assms(1,2,5,6,7), of cfg] by simp
qed

lemma processPacket_cases:
  assumes "processPacket cfg s pkt = (s', out)"
  obtains (skip) "tsTbl s' = tsTbl s" "seqTbl s' = seqTbl s" "flows s' = flows s"
      "uniDir s' = uniDir s" "\<And>v. out \<noteq> Classified v"
  | (classified) t ips ipd pay len v where
      "find_tcp pkt = Some t" "ip_info pkt t = Some (ips, ipd, pay, len)" "out = Classified v"
proof (cases "find_tcp pkt")
  case None
  with assms have "tsTbl s' = tsTbl s" "seqTbl s' = seqTbl s" "flows s' = flows s"
      "uniDir s' = uniDir s" "\<And>v. out \<noteq> Classified v"
    by (auto simp add: processPacket_def Let_def)
  then show thesis by (rule skip)
next
  case (Some t)
  note tcp = this
  show thesis
  proof (cases "ip_info pkt t")
    case None
    with tcp assms have "tsTbl s' = tsTbl s" "seqTbl s' = seqTbl s" "flows s' = flows s"
      "uniDir s' = uniDir s" "\<And>v. out \<noteq> Classified v"
      by (auto simp add: processPacket_def Let_def)
    then show thesis by (rule skip)
  next
    case (Some q)
    obtain ips ipd pay len where q: "q = (ips, ipd, pay, len)" by (cases q)
    note ip = Some[unfolded q]
    define src where "src = ips @ '':'' @ to_string (unat (sport t))"
    define dst where "dst = ipd @ '':'' @ to_string (unat (dport t))"
    define s2 where "s2 = set_capTm pkt (s\<lparr>pktCnt := pktCnt s + 1\<rparr>)"
    note eq = processPacket_eq[OF tcp ip src_def dst_def s2_def, of cfg]
    show thesis
    proof (cases "get_flow cfg (src @ ''+'' @ dst) (dst @ ''+'' @ src) s2")
      case None
      with eq assms have "s' = s2" "out = FlowDropped" by simp_all
      then have "tsTbl s' = tsTbl s" "seqTbl s' = seqTbl s" "flows s' = flows s"
        "uniDir s' = uniDir s" "\<And>v. out \<noteq> Classified v"
        by (simp_all add: s2_def)
      then show thesis by (rule skip)
    next
      case (Some r)
      with eq assms obtain v where "out = Classified v" by (auto simp add: split_beta)
      with tcp ip show thesis by (auto intro: classified)
    qed
  qed
qed

lemma processPacket_tables:
  assumes "processPacket cfg s pkt = (s', Classified v)"
    and "find_tcp pkt = Some t" "ip_info pkt t = Some (ips, ipd, pay, len)"
    and "src = ips @ '':'' @ to_string (unat (sport t))"
    and "dst = ipd @ '':'' @ to_string (unat (dport t))"
  obtains fr0 where
    "tsTbl s' = fst (ts_rtd cfg (capTm s') ipd (src @ ''+'' @ dst) src dst fr0 t (tsTbl s))"
    "pd v = fst (snd (ts_rtd cfg (capTm s') ipd (src @ ''+'' @ dst) src dst fr0 t (tsTbl s)))"
    "seqTbl s' = fst (seq_rtd cfg (capTm s') ipd (src @ ''+'' @ dst) src dst fr0 t pay (seqTbl s))"
    "sd v = fst (snd (seq_rtd cfg (capTm s') ipd (src @ ''+'' @ dst) src dst fr0 t pay (seqTbl s)))"
    "bidirectional s' (src @ ''+'' @ dst) = revFlow fr0"
    "uniDir s' = (if \<not> revFlow fr0 then uniDir s + 1 else uniDir s)"
proof -
  from processPacket_Classified[OF assms]
  obtain s3 fr0 where
    s': "s' = fst (classify cfg s3 fr0 t ipd src dst pay len)" and
    v: "v = snd (classify cfg s3 fr0 t ipd src dst pay len)" and
    ts: "tsTbl s3 = tsTbl s" and sq: "seqTbl s3 = seqTbl s" and un: "uniDir s3 = uniDir s" and
    cap: "capTm s3 = capTm s'" and
    bi: "bidirectional s' (src @ ''+'' @ dst) = revFlow fr0"
    by blast
  show thesis
  proof (rule that[of fr0])
    show "tsTbl s' = fst (ts_rtd cfg (capTm s') ipd (src @ ''+'' @ dst) src dst fr0 t (tsTbl s))"
      using cap ts by (simp add: s' classify_fst)
    show "pd v = fst (snd (ts_rtd cfg (capTm s') ipd (src @ ''+'' @ dst) src dst fr0 t (tsTbl s)))"
      using cap ts by (simp add: v s' classify_flags classify_fst)
    show "seqTbl s' = fst (seq_rtd cfg (capTm s') ipd (src @ ''+'' @ dst) src dst fr0 t pay (seqTbl s))"
      using cap sq by (simp add: s' classify_fst)
    show "sd v = fst (snd (seq_rtd cfg (capTm s') ipd (src @ ''+'' @ dst) src dst fr0 t pay (seqTbl s)))"
      using cap sq by (simp add: v s' classify_flags classify_fst)
    show "bidirectional s' (src @ ''+'' @ dst) = revFlow fr0" by (rule bi)
    show "uniDir s' = (if \<not> revFlow fr0 then uniDir s + 1 else uniDir s)"
      using un by (simp add: s' classify_fst)
  qed
qed

text \<open>The early return of line 311, and when it is taken.\<close>

lemma get_flow_None:
  "get_flow cfg fstr rstr s = None \<longleftrightarrow>
     map_of (flows s) fstr = None \<and> maxFlows cfg < flowCnt s"
  by (simp add: get_flow_def Let_def split: option.splits)

lemma processPacket_refused:
  assumes "find_tcp pkt = Some t" "ip_info pkt t = Some (ips, ipd, pay, len)"
    and "flow_strs pkt = Some (src, dst)"
    and "map_of (flows s) (src @ ''+'' @ dst) = None" "maxFlows cfg < flowCnt s"
  shows "processPacket cfg s pkt = (set_capTm pkt (s\<lparr>pktCnt := pktCnt s + 1\<rparr>), FlowDropped)"
proof -
  have sd: "src = ips @ '':'' @ to_string (unat (sport t))"
           "dst = ipd @ '':'' @ to_string (unat (dport t))"
    using assms(3) flow_strs_eq[OF assms(1,2)] by simp_all
  have "get_flow cfg (src @ ''+'' @ dst) (dst @ ''+'' @ src)
          (set_capTm pkt (s\<lparr>pktCnt := pktCnt s + 1\<rparr>)) = None"
    using assms(4,5) by (simp add: get_flow_None)
  with processPacket_eq[OF assms(1,2) sd refl, of cfg s] show ?thesis by simp
qed

lemma processPacket_not_refused:
  assumes "find_tcp pkt = Some t" "ip_info pkt t = Some (ips, ipd, pay, len)"
    and "flow_strs pkt = Some (src, dst)"
    and "\<not> (map_of (flows s) (src @ ''+'' @ dst) = None \<and> maxFlows cfg < flowCnt s)"
    and "processPacket cfg s pkt = (s', out)"
  obtains v where "out = Classified v"
proof -
  have sd: "src = ips @ '':'' @ to_string (unat (sport t))"
           "dst = ipd @ '':'' @ to_string (unat (dport t))"
    using assms(3) flow_strs_eq[OF assms(1,2)] by simp_all
  have "get_flow cfg (src @ ''+'' @ dst) (dst @ ''+'' @ src)
          (set_capTm pkt (s\<lparr>pktCnt := pktCnt s + 1\<rparr>)) \<noteq> None"
    using assms(4) by (simp add: get_flow_None)
  with processPacket_eq[OF assms(1,2) sd refl, of cfg s] assms(5)
  have "\<exists>v. out = Classified v" by (auto split: option.splits)
  then show thesis using that by blast
qed

lemma processPacket_pktCnt: "pktCnt (fst (processPacket cfg s p)) = pktCnt s + 1"
proof -
  obtain s' out where run: "processPacket cfg s p = (s', out)"
    by (cases "processPacket cfg s p")
  have "pktCnt s' = pktCnt s + 1"
  proof (cases "find_tcp p")
    case None
    with run show ?thesis by (auto simp add: processPacket_def Let_def)
  next
    case (Some t)
    note tcp = this
    show ?thesis
    proof (cases "ip_info p t")
      case None
      with tcp run show ?thesis by (auto simp add: processPacket_def Let_def)
    next
      case (Some q)
      obtain ips ipd pay len where q: "q = (ips, ipd, pay, len)" by (cases q)
      define src where "src = ips @ '':'' @ to_string (unat (sport t))"
      define dst where "dst = ipd @ '':'' @ to_string (unat (dport t))"
      define s2 where "s2 = set_capTm p (s\<lparr>pktCnt := pktCnt s + 1\<rparr>)"
      have c2: "pktCnt s2 = pktCnt s + 1" by (simp add: s2_def set_capTm_def)
      note eq = processPacket_eq[OF tcp Some[unfolded q] src_def dst_def s2_def, of cfg]
      show ?thesis
      proof (cases "get_flow cfg (src @ ''+'' @ dst) (dst @ ''+'' @ src) s2")
        case None
        with eq run c2 show ?thesis by simp
      next
        case (Some r)
        obtain s3 fr0 where r: "r = (s3, fr0)" by (cases r)
        from get_flow_Some(7)[OF Some[unfolded r]] c2 have "pktCnt s3 = pktCnt s + 1" by simp
        with eq run Some r show ?thesis by (simp add: classify_fst)
      qed
    qed
  qed
  with run show ?thesis by simp
qed

subsection \<open>Runs\<close>

lemma run_events_snoc: "run_events cfg (evs @ [e]) s = do_event cfg e (run_events cfg evs s)"
  by (simp add: run_events_def)

lemma packets_of_snoc:
  "packets_of (evs @ [e]) = packets_of evs @ (case e of Packet p \<Rightarrow> [p] | _ \<Rightarrow> [])"
  by (simp add: packets_of_def)

lemma processPacket_absent_ts:
  assumes "processPacket cfg s pkt = (s', out)"
    and a: "map_of (tsTbl s) k = None" and n: "ts_key pkt \<noteq> Some k"
  shows "map_of (tsTbl s') k = None"
  using assms(1)
proof (cases rule: processPacket_cases)
  case skip
  with a show ?thesis by simp
next
  case (classified t ips ipd pay len v)
  define src where "src = ips @ '':'' @ to_string (unat (sport t))"
  define dst where "dst = ipd @ '':'' @ to_string (unat (dport t))"
  from processPacket_tables[OF assms(1)[unfolded classified(3)] classified(1,2) src_def dst_def]
  obtain fr0 where
    T: "tsTbl s' = fst (ts_rtd cfg (capTm s') ipd (src @ ''+'' @ dst) src dst fr0 t (tsTbl s))"
    by blast
  have "\<And>tsval ecr. tcp_timestamp t = Some (tsval, ecr) \<Longrightarrow>
          k \<noteq> to_string (unat tsval) @ ''+'' @ (src @ ''+'' @ dst)"
    using n packet_keys(3)[OF classified(1,2) src_def dst_def] by auto
  from ts_rtd_absent[OF a this] show ?thesis unfolding T by simp
qed

lemma processPacket_absent_seq:
  assumes "processPacket cfg s pkt = (s', out)"
    and a: "map_of (seqTbl s) k = None" and n: "seq_key pkt \<noteq> Some k"
  shows "map_of (seqTbl s') k = None"
  using assms(1)
proof (cases rule: processPacket_cases)
  case skip
  with a show ?thesis by simp
next
  case (classified t ips ipd pay len v)
  define src where "src = ips @ '':'' @ to_string (unat (sport t))"
  define dst where "dst = ipd @ '':'' @ to_string (unat (dport t))"
  from processPacket_tables[OF assms(1)[unfolded classified(3)] classified(1,2) src_def dst_def]
  obtain fr0 where
    T: "seqTbl s' = fst (seq_rtd cfg (capTm s') ipd (src @ ''+'' @ dst) src dst fr0 t pay (seqTbl s))"
    by blast
  have "k \<noteq> to_string (unat (seq t + pay)) @ ''+'' @ (src @ ''+'' @ dst)"
    using n packet_keys(5)[OF classified(1,2) src_def dst_def] by auto
  from seq_rtd_absent[OF a this] show ?thesis unfolding T by simp
qed

lemma run_events_absent:
  assumes "\<forall>p \<in> set (packets_of evs). ts_key p \<noteq> Some k \<and> seq_key p \<noteq> Some k"
  shows "map_of (tsTbl s) k = None \<Longrightarrow> map_of (tsTbl (run_events cfg evs s)) k = None"
    and "map_of (seqTbl s) k = None \<Longrightarrow> map_of (seqTbl (run_events cfg evs s)) k = None"
  using assms
proof (induction evs rule: rev_induct)
  case Nil
  { case 1 then show ?case by (simp add: run_events_def) }
  { case 2 then show ?case by (simp add: run_events_def) }
next
  case (snoc e evs)
  { case 1
    then have ih: "map_of (tsTbl (run_events cfg evs s)) k = None"
      using snoc.IH(1) by (simp add: packets_of_snoc)
    show ?case
    proof (cases e)
      case (Packet p)
      with 1(2) have n: "ts_key p \<noteq> Some k" by (simp add: packets_of_snoc)
      obtain s' out where r: "processPacket cfg (run_events cfg evs s) p = (s', out)"
        by (cases "processPacket cfg (run_events cfg evs s) p")
      from processPacket_absent_ts[OF r ih n] r show ?thesis
        by (simp add: run_events_snoc Packet)
    next
      case (CleanUp n)
      then show ?thesis using ih by (simp add: run_events_snoc cleanUp_def map_of_filter_None)
    next
      case Summary
      then show ?thesis using ih by (simp add: run_events_snoc)
    qed }
  { case 2
    then have ih: "map_of (seqTbl (run_events cfg evs s)) k = None"
      using snoc.IH(2) by (simp add: packets_of_snoc)
    show ?case
    proof (cases e)
      case (Packet p)
      with 2(2) have n: "seq_key p \<noteq> Some k" by (simp add: packets_of_snoc)
      obtain s' out where r: "processPacket cfg (run_events cfg evs s) p = (s', out)"
        by (cases "processPacket cfg (run_events cfg evs s) p")
      from processPacket_absent_seq[OF r ih n] r show ?thesis
        by (simp add: run_events_snoc Packet)
    next
      case (CleanUp n)
      then show ?thesis using ih by (simp add: run_events_snoc cleanUp_def map_of_filter_None)
    next
      case Summary
      then show ?thesis using ih by (simp add: run_events_snoc)
    qed }
qed

lemma sample_takes_ts:
  assumes "processPacket cfg s pkt = (s', Classified v)" "pd v" "ecr_key pkt = Some k"
  shows "map_of (tsTbl s') k = None"
  using assms(1)
proof (cases rule: processPacket_cases)
  case skip
  from skip(5)[of v] show ?thesis by simp
next
  case (classified t ips ipd pay len v')
  define src where "src = ips @ '':'' @ to_string (unat (sport t))"
  define dst where "dst = ipd @ '':'' @ to_string (unat (dport t))"
  from processPacket_tables[OF assms(1) classified(1,2) src_def dst_def]
  obtain fr0 where
    T: "tsTbl s' = fst (ts_rtd cfg (capTm s') ipd (src @ ''+'' @ dst) src dst fr0 t (tsTbl s))" and
    P: "pd v = fst (snd (ts_rtd cfg (capTm s') ipd (src @ ''+'' @ dst) src dst fr0 t (tsTbl s)))"
    by blast
  from assms(3) packet_keys(4)[OF classified(1,2) src_def dst_def]
  obtain tsval ecr where o: "tcp_timestamp t = Some (tsval, ecr)"
    and k: "k = to_string (unat ecr) @ ''+'' @ dst @ ''+'' @ src"
    by (auto split: option.splits)
  from ts_rtd_sample_takes[OF assms(2)[unfolded P] o] show ?thesis
    unfolding T k by simp
qed

lemma sample_takes_seq:
  assumes "processPacket cfg s pkt = (s', Classified v)" "sd v" "ack_key pkt = Some k"
  shows "map_of (seqTbl s') k = None"
  using assms(1)
proof (cases rule: processPacket_cases)
  case skip
  from skip(5)[of v] show ?thesis by simp
next
  case (classified t ips ipd pay len v')
  define src where "src = ips @ '':'' @ to_string (unat (sport t))"
  define dst where "dst = ipd @ '':'' @ to_string (unat (dport t))"
  from processPacket_tables[OF assms(1) classified(1,2) src_def dst_def]
  obtain fr0 where
    T: "seqTbl s' = fst (seq_rtd cfg (capTm s') ipd (src @ ''+'' @ dst) src dst fr0 t pay (seqTbl s))" and
    P: "sd v = fst (snd (seq_rtd cfg (capTm s') ipd (src @ ''+'' @ dst) src dst fr0 t pay (seqTbl s)))"
    by blast
  from assms(3) packet_keys(6)[OF classified(1,2) src_def dst_def]
  have k: "k = to_string (unat (ack_seq t)) @ ''+'' @ dst @ ''+'' @ src" by simp
  from seq_rtd_sample_takes[OF assms(2)[unfolded P]] show ?thesis
    unfolding T k by simp
qed

lemma no_sample_ts:
  assumes "processPacket cfg s pkt = (s', Classified v)" "map_of (tsTbl s) k = None"
    and "ecr_key pkt = Some k" "ts_key pkt \<noteq> Some k"
  shows "\<not> pd v"
  using assms(1)
proof (cases rule: processPacket_cases)
  case skip
  from skip(5)[of v] show ?thesis by simp
next
  case (classified t ips ipd pay len v')
  define src where "src = ips @ '':'' @ to_string (unat (sport t))"
  define dst where "dst = ipd @ '':'' @ to_string (unat (dport t))"
  from processPacket_tables[OF assms(1) classified(1,2) src_def dst_def]
  obtain fr0 where
    P: "pd v = fst (snd (ts_rtd cfg (capTm s') ipd (src @ ''+'' @ dst) src dst fr0 t (tsTbl s)))"
    by blast
  from assms(3) packet_keys(4)[OF classified(1,2) src_def dst_def]
  obtain tsval ecr where o: "tcp_timestamp t = Some (tsval, ecr)"
    and k: "k = to_string (unat ecr) @ ''+'' @ dst @ ''+'' @ src"
    by (auto split: option.splits)
  from assms(4) packet_keys(3)[OF classified(1,2) src_def dst_def] o
  have n: "k \<noteq> to_string (unat tsval) @ ''+'' @ (src @ ''+'' @ dst)" by simp
  from ts_rtd_no_sample[OF assms(2) k o n] show ?thesis unfolding P .
qed

lemma no_sample_seq:
  assumes "processPacket cfg s pkt = (s', Classified v)" "map_of (seqTbl s) k = None"
    and "ack_key pkt = Some k" "seq_key pkt \<noteq> Some k"
  shows "\<not> sd v"
  using assms(1)
proof (cases rule: processPacket_cases)
  case skip
  from skip(5)[of v] show ?thesis by simp
next
  case (classified t ips ipd pay len v')
  define src where "src = ips @ '':'' @ to_string (unat (sport t))"
  define dst where "dst = ipd @ '':'' @ to_string (unat (dport t))"
  from processPacket_tables[OF assms(1) classified(1,2) src_def dst_def]
  obtain fr0 where
    P: "sd v = fst (snd (seq_rtd cfg (capTm s') ipd (src @ ''+'' @ dst) src dst fr0 t pay (seqTbl s)))"
    by blast
  from assms(3) packet_keys(6)[OF classified(1,2) src_def dst_def]
  have k: "k = to_string (unat (ack_seq t)) @ ''+'' @ dst @ ''+'' @ src" by simp
  from assms(4) packet_keys(5)[OF classified(1,2) src_def dst_def]
  have n: "k \<noteq> to_string (unat (seq t + pay)) @ ''+'' @ (src @ ''+'' @ dst)" by simp
  from seq_rtd_no_sample[OF assms(2) k n] show ?thesis unfolding P .
qed

text \<open>
  The loop of \<open>main\<close> is such a run: what it has done to the state is a list of events
  whose packets are packets of the capture.
\<close>

lemma run_events_append:
  "run_events cfg (xs @ ys) s = run_events cfg ys (run_events cfg xs s)"
  by (simp add: run_events_def)

lemma run_loop_events:
  "\<exists>evs. fst (run_loop cfg nxtSum nxtClean s pkts) = run_events cfg evs s \<and>
         set (packets_of evs) \<subseteq> set pkts"
proof (induction pkts arbitrary: s nxtSum nxtClean)
  case Nil
  show ?case by (intro exI[of _ "[]"]) (simp add: run_events_def packets_of_def)
next
  case (Cons p pkts)
  obtain s1 out where r: "processPacket cfg s p = (s1, out)"
    by (cases "processPacket cfg s p")
  show ?case
  proof (cases "(time_to_run cfg > 0 \<and> fl (capTm s1 - startm s1) \<ge> time_to_run cfg) \<or>
                (maxPackets cfg > 0 \<and> pktCnt s1 \<ge> maxPackets cfg)")
    case True
    then have "fst (run_loop cfg nxtSum nxtClean s (p # pkts)) = s1"
      using r by (simp add: Let_def)
    then show ?thesis
      using r by (intro exI[of _ "[Packet p]"]) (simp add: run_events_def packets_of_def)
  next
    case False
    define evS where
      "evS = (if sumInt cfg \<noteq> 0 \<and> capTm s1 \<ge> nxtSum \<and> nxtSum > 0 then [Summary] else [])"
    define s2 where "s2 = run_events cfg evS s1"
    define evC where "evC = (if capTm s2 \<ge> nxtClean then [CleanUp (capTm s2)] else [])"
    define s3 where "s3 = run_events cfg evC s2"
    define nS where
      "nS = (if sumInt cfg \<noteq> 0 \<and> capTm s1 \<ge> nxtSum then fl (capTm s1 + sumInt cfg) else nxtSum)"
    define nC where
      "nC = (if capTm s2 \<ge> nxtClean then fl (capTm s2 + rtdMaxAge cfg) else nxtClean)"
    have "fst (run_loop cfg nxtSum nxtClean s (p # pkts)) = fst (run_loop cfg nS nC s3 pkts)"
      using False r
      by (auto simp add: Let_def split_beta s3_def evC_def s2_def evS_def nS_def nC_def
          run_events_def)
    moreover from Cons.IH[of nS nC s3]
    obtain evs where "fst (run_loop cfg nS nC s3 pkts) = run_events cfg evs s3"
      and "set (packets_of evs) \<subseteq> set pkts" by blast
    moreover have "run_events cfg (Packet p # evS @ evC @ evs) s = run_events cfg evs s3"
      using r by (simp add: run_events_def s3_def s2_def)
    moreover have "set (packets_of (Packet p # evS @ evC @ evs)) \<subseteq> set (p # pkts)"
      using \<open>set (packets_of evs) \<subseteq> set pkts\<close>
      by (auto simp add: packets_of_def evS_def evC_def)
    ultimately show ?thesis by (intro exI[of _ "Packet p # evS @ evC @ evs"]) simp
  qed
qed

lemma run_main_events:
  "\<exists>evs. fst (run_main cfg pkts) = run_events cfg evs init_state \<and>
         set (packets_of evs) \<subseteq> set pkts"
  unfolding run_main_def by (rule run_loop_events)

subsection \<open>Evaluation of the examples\<close>

text \<open>The doubles that the examples with microseconds compute.\<close>

lemma fl_micro: "fl (1 / 1000000) = 4722366482869645 / 4722366482869645213696"
  by (subst fl_eval[where e = "- 20"]) (simp_all add: rne_def Let_def power_int_minus)

lemma usec_100000: "fl (100000 * fl (1 / 1000000)) = 7205759403792793 / 72057594037927936"
  unfolding fl_micro
  by (subst fl_eval[where e = "- 4"]) (simp_all add: rne_def Let_def power_int_minus)

lemma fl_usec_100000:
  "fl (7205759403792793 / 72057594037927936) = 7205759403792793 / 72057594037927936"
  using fl_repr[of 7205759403792793 "- 56"] by (simp add: power_int_minus)



lemmas eval_defs = processPacket_def classify_def ip_info_def set_capTm_def get_flow_def
  ts_rtd_def pping_def seq_rtd_def seq_delta_def dup_ack_def addTS_def addSeq_def
  getTStm_def getSeqTm_def new_flowRec_def init_state_def default_config_def
  TCP_ACK_def TCP_SYN_def TCP_FIN_def to_string.simps digit_def Let_def cleanUp_def
  tcp_packet_def hostA_def hostB_def run_events_def





lemma dup_state_eq:
  "dup_state =
     \<lparr>flows =
        [(''10.0.0.2:80+10.0.0.1:1234'',
          \<lparr>flowname = ''10.0.0.2:80+10.0.0.1:1234'', lastTm = 0, bytesSnt = 66,
             lastSeq = 7000, lastAck = 5000, lastPay = 0, revFlow = False\<rparr>)],
      tsTbl = [], seqTbl = [], flowCnt = 1, offTm = 100, capTm = 0,
      startm = 0, pktCnt = 1, not_tcp = 0, no_TS = 1, not_v4or6 = 0, uniDir = 1\<rparr>"
  by (simp add: dup_state_def dup_p_def eval_defs)

lemma dup_p_second:
  "processPacket default_config dup_state dup_p =
     (\<lparr>flows =
        [(''10.0.0.2:80+10.0.0.1:1234'',
          \<lparr>flowname = ''10.0.0.2:80+10.0.0.1:1234'', lastTm = 0, bytesSnt = 132,
             lastSeq = 7000, lastAck = 5000, lastPay = 0, revFlow = False\<rparr>)],
      tsTbl = [], seqTbl = [], flowCnt = 1, offTm = 100, capTm = 0,
      startm = 0, pktCnt = 2, not_tcp = 0, no_TS = 2, not_v4or6 = 0, uniDir = 2\<rparr>,
      Classified \<lparr>pd = False, sd = False, ds = False, dp = False, printed = None\<rparr>)"
  by (simp add: dup_state_eq) (simp add: dup_p_def eval_defs)

lemma ooo_state_eq:
  "ooo_state =
     \<lparr>flows =
        [(''10.0.0.1:1234+10.0.0.2:80'',
          \<lparr>flowname = ''10.0.0.1:1234+10.0.0.2:80'', lastTm = 0, bytesSnt = 166,
             lastSeq = 1100, lastAck = 1, lastPay = 100, revFlow = False\<rparr>)],
      tsTbl = [], seqTbl = [], flowCnt = 1, offTm = 1, capTm = 0, startm = 0,
      pktCnt = 1, not_tcp = 0, no_TS = 1, not_v4or6 = 0, uniDir = 1\<rparr>"
  by (simp add: ooo_state_def ooo_p1_def eval_defs)

lemma ooo_p3_run:
  "processPacket default_config ooo_state ooo_p3 =
     (\<lparr>flows =
        [(''10.0.0.1:1234+10.0.0.2:80'',
          \<lparr>flowname = ''10.0.0.1:1234+10.0.0.2:80'', lastTm = 7205759403792793 / 72057594037927936,
             bytesSnt = 232,
             lastSeq = 1000, lastAck = 1, lastPay = 0, revFlow = False\<rparr>)],
      tsTbl = [], seqTbl = [], flowCnt = 1, offTm = 1,
      capTm = 7205759403792793 / 72057594037927936, startm = 0,
      pktCnt = 2, not_tcp = 0, no_TS = 2, not_v4or6 = 0, uniDir = 2\<rparr>,
      Classified
        \<lparr>pd = False, sd = False, ds = False, dp = True,
         printed = Some \<lparr>o_capTm = 7205759403792793 / 72057594037927936, o_prtd = None,
                         o_srtd = None, o_dseq = - 200,
                         o_dupDiff = Some (7205759403792793 / 72057594037927936),
                         o_payLen = 0, o_bytesSnt = 232,
                         o_flow = ''10.0.0.1:1234+10.0.0.2:80''\<rparr>\<rparr>)"
  by (simp add: ooo_state_eq) (simp add: ooo_p3_def eval_defs usec_100000 fl_usec_100000)



lemma ack_p3_keys:
  "find_tcp ack_p3 = Some \<lparr>sport = 1234, dport = 80, seq = 1001, ack_seq = 5100,
      flags = TCP_ACK, tcp_header_size = 32, tcp_timestamp = Some (6, 7)\<rparr>"
  "ip_info ack_p3 \<lparr>sport = 1234, dport = 80, seq = 1001, ack_seq = 5100,
      flags = TCP_ACK, tcp_header_size = 32, tcp_timestamp = Some (6, 7)\<rparr>
     = Some (''10.0.0.1'', ''10.0.0.2'', 0, 66)"
  "fwd_key ack_p3 = Some ''10.0.0.1:1234+10.0.0.2:80''"
  "ecr_key ack_p3 = Some ''7+10.0.0.2:80+10.0.0.1:1234''"
  "ack_key ack_p3 = Some ''5100+10.0.0.2:80+10.0.0.1:1234''"
  by (simp_all add: ack_p3_def tcp_packet_def ip_info_def hostA_def hostB_def fwd_key_def
      ecr_key_def ack_key_def flow_strs_def to_string.simps digit_def)

lemma zero_state_eq:
  "zero_state =
     \<lparr>flows =
        [(''10.0.0.1:1234+10.0.0.2:80'',
          \<lparr>flowname = ''10.0.0.1:1234+10.0.0.2:80'', lastTm = 0, bytesSnt = 66,
             lastSeq = 1001, lastAck = 0, lastPay = 0, revFlow = True\<rparr>),
         (''10.0.0.2:80+10.0.0.1:1234'',
          \<lparr>flowname = ''10.0.0.2:80+10.0.0.1:1234'', lastTm = 0, bytesSnt = 166,
             lastSeq = 5000, lastAck = 1001, lastPay = 100, revFlow = True\<rparr>)],
      tsTbl = [(''7+10.0.0.2:80+10.0.0.1:1234'', 0)],
      seqTbl = [(''5100+10.0.0.2:80+10.0.0.1:1234'', 0)],
      flowCnt = 2, offTm = 100, capTm = 0, startm = 0, pktCnt = 2,
      not_tcp = 0, no_TS = 0, not_v4or6 = 0, uniDir = 1\<rparr>"
  by (simp add: zero_state_def syn_p1_def zero_p2_def eval_defs)

lemma zero_p3_run:
  "processPacket default_config zero_state zero_p3 =
     (\<lparr>flows =
        [(''10.0.0.1:1234+10.0.0.2:80'',
          \<lparr>flowname = ''10.0.0.1:1234+10.0.0.2:80'', lastTm = 1, bytesSnt = 132,
             lastSeq = 1001, lastAck = 5100, lastPay = 0, revFlow = True\<rparr>),
         (''10.0.0.2:80+10.0.0.1:1234'',
          \<lparr>flowname = ''10.0.0.2:80+10.0.0.1:1234'', lastTm = 0, bytesSnt = 166,
             lastSeq = 5000, lastAck = 1001, lastPay = 100, revFlow = True\<rparr>)],
      tsTbl = [(''6+10.0.0.1:1234+10.0.0.2:80'', 1)], seqTbl = [],
      flowCnt = 2, offTm = 100, capTm = 1, startm = 0, pktCnt = 3,
      not_tcp = 0, no_TS = 0, not_v4or6 = 0, uniDir = 1\<rparr>,
      Classified \<lparr>pd = False, sd = False, ds = False, dp = False, printed = None\<rparr>)"
  by (simp add: zero_state_eq) (simp add: zero_p3_def eval_defs)

lemma zero_p3_keys:
  "find_tcp zero_p3 = Some \<lparr>sport = 1234, dport = 80, seq = 1001, ack_seq = 5100,
      flags = TCP_ACK, tcp_header_size = 32, tcp_timestamp = Some (6, 7)\<rparr>"
  "ip_info zero_p3 \<lparr>sport = 1234, dport = 80, seq = 1001, ack_seq = 5100,
      flags = TCP_ACK, tcp_header_size = 32, tcp_timestamp = Some (6, 7)\<rparr>
     = Some (''10.0.0.1'', ''10.0.0.2'', 0, 66)"
  "fwd_key zero_p3 = Some ''10.0.0.1:1234+10.0.0.2:80''"
  "ecr_key zero_p3 = Some ''7+10.0.0.2:80+10.0.0.1:1234''"
  "ack_key zero_p3 = Some ''5100+10.0.0.2:80+10.0.0.1:1234''"
  by (simp_all add: zero_p3_def tcp_packet_def ip_info_def hostA_def hostB_def fwd_key_def
      ecr_key_def ack_key_def flow_strs_def to_string.simps digit_def)

lemma pair_state_eq:
  "pair_state =
     \<lparr>flows =
        [(''10.0.0.1:1234+10.0.0.2:80'',
          \<lparr>flowname = ''10.0.0.1:1234+10.0.0.2:80'', lastTm = 0, bytesSnt = 66,
             lastSeq = 1001, lastAck = 0, lastPay = 0, revFlow = True\<rparr>),
         (''10.0.0.2:80+10.0.0.1:1234'',
          \<lparr>flowname = ''10.0.0.2:80+10.0.0.1:1234'', lastTm = 1, bytesSnt = 166,
             lastSeq = 5000, lastAck = 1001, lastPay = 100, revFlow = True\<rparr>)],
      tsTbl = [(''7+10.0.0.2:80+10.0.0.1:1234'', 1)],
      seqTbl = [(''5100+10.0.0.2:80+10.0.0.1:1234'', 1)],
      flowCnt = 2, offTm = 100, capTm = 1, startm = 0, pktCnt = 2,
      not_tcp = 0, no_TS = 0, not_v4or6 = 0, uniDir = 1\<rparr>"
  by (simp add: pair_state_def syn_p1_def data_p2_def eval_defs)

lemma ack_p3_unfiltered:
  "processPacket default_config pair_state ack_p3 =
     (\<lparr>flows =
        [(''10.0.0.1:1234+10.0.0.2:80'',
          \<lparr>flowname = ''10.0.0.1:1234+10.0.0.2:80'', lastTm = 2, bytesSnt = 132,
             lastSeq = 1001, lastAck = 5100, lastPay = 0, revFlow = True\<rparr>),
         (''10.0.0.2:80+10.0.0.1:1234'',
          \<lparr>flowname = ''10.0.0.2:80+10.0.0.1:1234'', lastTm = 1, bytesSnt = 166,
             lastSeq = 5000, lastAck = 1001, lastPay = 100, revFlow = True\<rparr>)],
      tsTbl = [(''6+10.0.0.1:1234+10.0.0.2:80'', 2)], seqTbl = [],
      flowCnt = 2, offTm = 100, capTm = 2, startm = 0, pktCnt = 3,
      not_tcp = 0, no_TS = 0, not_v4or6 = 0, uniDir = 1\<rparr>,
      Classified
        \<lparr>pd = True, sd = True, ds = False, dp = False,
         printed = Some \<lparr>o_capTm = 2, o_prtd = Some 1, o_srtd = Some 1, o_dseq = 0,
                         o_dupDiff = None, o_payLen = 0, o_bytesSnt = 132,
                         o_flow = ''10.0.0.1:1234+10.0.0.2:80''\<rparr>\<rparr>)"
  by (simp add: pair_state_eq) (simp add: ack_p3_def eval_defs)

lemma later_events_run:
  "run_events default_config later_events
     \<lparr>flows =
        [(''10.0.0.1:1234+10.0.0.2:80'',
          \<lparr>flowname = ''10.0.0.1:1234+10.0.0.2:80'', lastTm = 2, bytesSnt = 132,
             lastSeq = 1001, lastAck = 5100, lastPay = 0, revFlow = True\<rparr>),
         (''10.0.0.2:80+10.0.0.1:1234'',
          \<lparr>flowname = ''10.0.0.2:80+10.0.0.1:1234'', lastTm = 1, bytesSnt = 166,
             lastSeq = 5000, lastAck = 1001, lastPay = 100, revFlow = True\<rparr>)],
      tsTbl = [(''6+10.0.0.1:1234+10.0.0.2:80'', 2)], seqTbl = [],
      flowCnt = 2, offTm = 100, capTm = 2, startm = 0, pktCnt = 3,
      not_tcp = 0, no_TS = 0, not_v4or6 = 0, uniDir = 1\<rparr>
   = \<lparr>flows =
        [(''10.0.0.1:1234+10.0.0.2:80'',
          \<lparr>flowname = ''10.0.0.1:1234+10.0.0.2:80'', lastTm = 2, bytesSnt = 132,
             lastSeq = 1001, lastAck = 5100, lastPay = 0, revFlow = True\<rparr>),
         (''10.0.0.2:80+10.0.0.1:1234'',
          \<lparr>flowname = ''10.0.0.2:80+10.0.0.1:1234'', lastTm = 3, bytesSnt = 332,
             lastSeq = 5100, lastAck = 1001, lastPay = 100, revFlow = True\<rparr>)],
      tsTbl = [(''8+10.0.0.2:80+10.0.0.1:1234'', 3)],
      seqTbl = [(''5200+10.0.0.2:80+10.0.0.1:1234'', 3)],
      flowCnt = 2, offTm = 100, capTm = 3, startm = 0, pktCnt = 0,
      not_tcp = 0, no_TS = 0, not_v4or6 = 0, uniDir = 0\<rparr>"
  by (simp add: later_events_def more_p4_def eval_defs)

lemma again_p5_run:
  "processPacket default_config
     \<lparr>flows =
        [(''10.0.0.1:1234+10.0.0.2:80'',
          \<lparr>flowname = ''10.0.0.1:1234+10.0.0.2:80'', lastTm = 2, bytesSnt = 132,
             lastSeq = 1001, lastAck = 5100, lastPay = 0, revFlow = True\<rparr>),
         (''10.0.0.2:80+10.0.0.1:1234'',
          \<lparr>flowname = ''10.0.0.2:80+10.0.0.1:1234'', lastTm = 3, bytesSnt = 332,
             lastSeq = 5100, lastAck = 1001, lastPay = 100, revFlow = True\<rparr>)],
      tsTbl = [(''8+10.0.0.2:80+10.0.0.1:1234'', 3)],
      seqTbl = [(''5200+10.0.0.2:80+10.0.0.1:1234'', 3)],
      flowCnt = 2, offTm = 100, capTm = 3, startm = 0, pktCnt = 0,
      not_tcp = 0, no_TS = 0, not_v4or6 = 0, uniDir = 0\<rparr>
     again_p5
   = (\<lparr>flows =
        [(''10.0.0.1:1234+10.0.0.2:80'',
          \<lparr>flowname = ''10.0.0.1:1234+10.0.0.2:80'', lastTm = 4, bytesSnt = 198,
             lastSeq = 1001, lastAck = 5100, lastPay = 0, revFlow = True\<rparr>),
         (''10.0.0.2:80+10.0.0.1:1234'',
          \<lparr>flowname = ''10.0.0.2:80+10.0.0.1:1234'', lastTm = 3, bytesSnt = 332,
             lastSeq = 5100, lastAck = 1001, lastPay = 100, revFlow = True\<rparr>)],
      tsTbl = [(''8+10.0.0.2:80+10.0.0.1:1234'', 3), (''9+10.0.0.1:1234+10.0.0.2:80'', 4)],
      seqTbl = [(''5200+10.0.0.2:80+10.0.0.1:1234'', 3)],
      flowCnt = 2, offTm = 100, capTm = 4, startm = 0, pktCnt = 1,
      not_tcp = 0, no_TS = 0, not_v4or6 = 0, uniDir = 0\<rparr>,
      Classified
        \<lparr>pd = False, sd = False, ds = False, dp = True,
         printed = Some \<lparr>o_capTm = 4, o_prtd = None, o_srtd = None, o_dseq = 0,
                         o_dupDiff = Some 2, o_payLen = 0, o_bytesSnt = 198,
                         o_flow = ''10.0.0.1:1234+10.0.0.2:80''\<rparr>\<rparr>)"
  by (simp add: again_p5_def eval_defs)

lemma later_keys:
  "packets_of later_events = [more_p4]"
  "ts_key more_p4 = Some ''8+10.0.0.2:80+10.0.0.1:1234''"
  "seq_key more_p4 = Some ''5200+10.0.0.2:80+10.0.0.1:1234''"
  "ts_key again_p5 = Some ''9+10.0.0.1:1234+10.0.0.2:80''"
  "seq_key again_p5 = Some ''1001+10.0.0.1:1234+10.0.0.2:80''"
  "ecr_key again_p5 = Some ''7+10.0.0.2:80+10.0.0.1:1234''"
  "ack_key again_p5 = Some ''5100+10.0.0.2:80+10.0.0.1:1234''"
  by (simp_all add: packets_of_def later_events_def more_p4_def again_p5_def tcp_packet_def
      ip_info_def hostA_def hostB_def ts_key_def seq_key_def ecr_key_def ack_key_def
      flow_strs_def to_string.simps digit_def)

lemma uni_state_eq:
  "uni_state =
     \<lparr>flows =
        [(''10.0.0.1:1234+10.0.0.2:80'',
          \<lparr>flowname = ''10.0.0.1:1234+10.0.0.2:80'', lastTm = 0, bytesSnt = 66,
             lastSeq = 1001, lastAck = 0, lastPay = 0, revFlow = False\<rparr>)],
      tsTbl = [], seqTbl = [], flowCnt = 1, offTm = 100, capTm = 0, startm = 0,
      pktCnt = 1, not_tcp = 0, no_TS = 0, not_v4or6 = 0, uniDir = 1\<rparr>"
  by (simp add: uni_state_def syn_p1_def eval_defs)

lemma uni_p2_run:
  "processPacket default_config uni_state uni_p2 =
     (\<lparr>flows =
        [(''10.0.0.1:1234+10.0.0.2:80'',
          \<lparr>flowname = ''10.0.0.1:1234+10.0.0.2:80'', lastTm = 1, bytesSnt = 232,
             lastSeq = 1001, lastAck = 0, lastPay = 100, revFlow = False\<rparr>)],
      tsTbl = [], seqTbl = [], flowCnt = 1, offTm = 100, capTm = 1, startm = 0,
      pktCnt = 2, not_tcp = 0, no_TS = 0, not_v4or6 = 0, uniDir = 2\<rparr>,
      Classified \<lparr>pd = False, sd = False, ds = False, dp = False, printed = None\<rparr>)"
  by (simp add: uni_state_eq) (simp add: uni_p2_def eval_defs)

lemma uni_p2_keys:
  "find_tcp uni_p2 = Some \<lparr>sport = 1234, dport = 80, seq = 1001, ack_seq = 0,
      flags = TCP_ACK, tcp_header_size = 32, tcp_timestamp = Some (6, 3)\<rparr>"
  "ip_info uni_p2 \<lparr>sport = 1234, dport = 80, seq = 1001, ack_seq = 0,
      flags = TCP_ACK, tcp_header_size = 32, tcp_timestamp = Some (6, 3)\<rparr>
     = Some (''10.0.0.1'', ''10.0.0.2'', 100, 166)"
  "flow_strs uni_p2 = Some (''10.0.0.1:1234'', ''10.0.0.2:80'')"
  "rev_key uni_p2 = Some ''10.0.0.2:80+10.0.0.1:1234''"
  "wf_packet uni_p2"
  "flow_strs syn_p1 = Some (''10.0.0.1:1234'', ''10.0.0.2:80'')"
  "rev_key syn_p1 = Some ''10.0.0.2:80+10.0.0.1:1234''"
  "wf_packet syn_p1"
  "flow_strs ack_p3 = Some (''10.0.0.1:1234'', ''10.0.0.2:80'')"
  by (simp_all add: uni_p2_def syn_p1_def ack_p3_def tcp_packet_def ip_info_def hostA_def
      hostB_def rev_key_def wf_packet_def flow_strs_def to_string.simps digit_def)

subsection \<open>The local filter (C1)\<close>




subsection \<open>The sequence delta (C2)\<close>

text \<open>
  C2, as the code has it. \<open>dseq\<close> is the signed difference, \<open>ds\<close> is set only when it is
  positive, and a line is printed exactly when one of \<open>pd\<close>, \<open>sd\<close>, \<open>ds\<close>, \<open>dp\<close> is set
  (and, with \<open>-Q\<close>, one of \<open>pd\<close>, \<open>sd\<close>). So a negative \<open>dseq\<close> is printed, with its
  sign, on a line that an RTT sample or a duplicate ACK causes, and causes no line itself.
\<close>

theorem dseq_signed_on_printed_line:
  assumes "find_tcp pkt = Some t" "ip_info pkt t = Some (ips, ipd, pay, len)"
    and "fwd_key pkt = Some K" "map_of (flows s) K = Some fr" "lastSeq fr \<noteq> 0"
    and "processPacket cfg s pkt = (s', out)"
  shows "\<exists>v. out = Classified v \<and>
           ds v = (0 < sint (seq t - (lastSeq fr + lastPay fr))) \<and>
           (printed v \<noteq> None \<longleftrightarrow>
              (pd v \<or> sd v \<or> ds v \<or> dp v) \<and> (quick cfg \<longrightarrow> pd v \<or> sd v)) \<and>
           (\<forall>ob. printed v = Some ob \<longrightarrow>
              o_dseq ob = sint (seq t - (lastSeq fr + lastPay fr)))"
proof -
  define src where "src = ips @ '':'' @ to_string (unat (sport t))"
  define dst where "dst = ipd @ '':'' @ to_string (unat (dport t))"
  define s2 where "s2 = set_capTm pkt (s\<lparr>pktCnt := pktCnt s + 1\<rparr>)"
  let ?v = "snd (classify cfg s2 fr t ipd src dst pay len)"
  from processPacket_existing(1)[OF assms(1-4) src_def dst_def s2_def, of cfg] assms(6)
  have out: "out = Classified ?v" by simp
  have d: "seq_delta fr (seq t) = sint (seq t - (lastSeq fr + lastPay fr))"
    using assms(5) by (simp add: seq_delta_def)
  have 1: "ds ?v = (0 < sint (seq t - (lastSeq fr + lastPay fr)))"
    by (simp add: classify_flags d)
  have 2: "printed ?v \<noteq> None \<longleftrightarrow>
             (pd ?v \<or> sd ?v \<or> ds ?v \<or> dp ?v) \<and> (quick cfg \<longrightarrow> pd ?v \<or> sd ?v)"
    by (simp add: classify_printed Let_def)
  have 3: "\<forall>ob. printed ?v = Some ob \<longrightarrow> o_dseq ob = sint (seq t - (lastSeq fr + lastPay fr))"
    by (auto simp add: classify_printed Let_def d split: if_splits)
  from out 1 2 3 show ?thesis by blast
qed

theorem out_of_order_not_printed_counterexample:
  "seq_delta (the (map_of (flows ooo_state) ''10.0.0.1:1234+10.0.0.2:80'')) 1000 = - 200 \<and>
   snd (processPacket default_config ooo_state ooo_p2)
     = Classified \<lparr>pd = False, sd = False, ds = False, dp = False, printed = None\<rparr>"
  by (simp add: ooo_state_eq) (simp add: ooo_p2_def eval_defs)

theorem dseq_signed_on_printed_line_witness:
  "lastSeq (the (map_of (flows ooo_state) ''10.0.0.1:1234+10.0.0.2:80'')) = 1100 \<and>
   lastPay (the (map_of (flows ooo_state) ''10.0.0.1:1234+10.0.0.2:80'')) = 100 \<and>
   sint ((1000 :: u32) - (1100 + 100)) = - 200 \<and>
   (\<exists>v ob. snd (processPacket default_config ooo_state ooo_p3) = Classified v \<and>
      \<not> ds v \<and> dp v \<and> printed v = Some ob \<and> o_dseq ob = - 200)"
proof -
  let ?t = "\<lparr>sport = 1234, dport = 80, seq = 1000, ack_seq = 1, flags = TCP_ACK,
             tcp_header_size = 32, tcp_timestamp = None\<rparr>"
  let ?fr = "\<lparr>flowname = ''10.0.0.1:1234+10.0.0.2:80'', lastTm = 0, bytesSnt = 166,
              lastSeq = 1100, lastAck = 1, lastPay = 100, revFlow = False\<rparr>"
  have h1: "find_tcp ooo_p3 = Some ?t" by (simp add: ooo_p3_def tcp_packet_def)
  have h2: "ip_info ooo_p3 ?t = Some (''10.0.0.1'', ''10.0.0.2'', 0, 66)"
    by (simp add: ooo_p3_def tcp_packet_def ip_info_def hostA_def hostB_def)
  have h3: "fwd_key ooo_p3 = Some ''10.0.0.1:1234+10.0.0.2:80''"
    by (simp add: fwd_key_def flow_strs_def ooo_p3_def tcp_packet_def ip_info_def hostA_def
        hostB_def to_string.simps digit_def)
  have h4: "map_of (flows ooo_state) ''10.0.0.1:1234+10.0.0.2:80'' = Some ?fr"
    by (simp add: ooo_state_eq)
  have h5: "lastSeq ?fr \<noteq> 0" by simp
  from dseq_signed_on_printed_line[OF h1 h2 h3 h4 h5 ooo_p3_run]
  obtain v where v: "Classified
        \<lparr>pd = False, sd = False, ds = False, dp = True,
         printed = Some \<lparr>o_capTm = 7205759403792793 / 72057594037927936, o_prtd = None,
                         o_srtd = None, o_dseq = - 200,
                         o_dupDiff = Some (7205759403792793 / 72057594037927936),
                         o_payLen = 0, o_bytesSnt = 232,
                         o_flow = ''10.0.0.1:1234+10.0.0.2:80''\<rparr>\<rparr> = Classified v"
    and "ds v = (0 < sint (seq ?t - (lastSeq ?fr + lastPay ?fr)))"
    and "\<forall>ob. printed v = Some ob \<longrightarrow> o_dseq ob = sint (seq ?t - (lastSeq ?fr + lastPay ?fr))"
    by blast
  then show ?thesis using h4 by (auto simp add: ooo_p3_run)
qed

subsection \<open>The packet count of the loop (C3)\<close>

text \<open>
  With the summaries off (\<open>-q\<close>, \<open>sumInt = 0\<close>) nothing resets \<open>pktCnt\<close>, and the loop
  stops after at most \<open>maxPackets\<close> packets.
\<close>

lemma quiet_loop_count:
  assumes "sumInt cfg = 0" "pktCnt s < maxPackets cfg" "0 < maxPackets cfg"
  shows "int (fst (snd (run_loop cfg nxtSum nxtClean s pkts))) \<le> maxPackets cfg - pktCnt s"
  using assms
proof (induction pkts arbitrary: s nxtSum nxtClean)
  case Nil
  then show ?case by simp
next
  case (Cons p pkts)
  let ?s1 = "fst (processPacket cfg s p)"
  have c1: "pktCnt ?s1 = pktCnt s + 1" by (rule processPacket_pktCnt)
  show ?case
  proof (cases "(time_to_run cfg > 0 \<and> fl (capTm ?s1 - startm ?s1) \<ge> time_to_run cfg) \<or>
                (maxPackets cfg > 0 \<and> pktCnt ?s1 \<ge> maxPackets cfg)")
    case True
    then have "fst (snd (run_loop cfg nxtSum nxtClean s (p # pkts))) = 1"
      by (simp add: split_beta Let_def)
    with Cons.prems(2) show ?thesis by simp
  next
    case False
    with Cons.prems(2,3) c1 have lt: "pktCnt ?s1 < maxPackets cfg" by auto
    let ?s3 = "if capTm ?s1 \<ge> nxtClean then cleanUp cfg (capTm ?s1) ?s1 else ?s1"
    let ?nc = "if capTm ?s1 \<ge> nxtClean then fl (capTm ?s1 + rtdMaxAge cfg) else nxtClean"
    have c3: "pktCnt ?s3 = pktCnt ?s1" by (simp add: cleanUp_def)
    have "fst (snd (run_loop cfg nxtSum nxtClean s (p # pkts))) =
          Suc (fst (snd (run_loop cfg nxtSum ?nc ?s3 pkts)))"
      using False Cons.prems(1) by (auto simp add: split_beta Let_def)
    moreover from Cons.IH[OF Cons.prems(1) _ Cons.prems(3), of ?s3 nxtSum ?nc] lt c3
    have "int (fst (snd (run_loop cfg nxtSum ?nc ?s3 pkts))) \<le> maxPackets cfg - pktCnt ?s1"
      by simp
    ultimately show ?thesis using c1 by simp
  qed
qed

lemma quiet_run_count:
  assumes "sumInt cfg = 0" "0 < maxPackets cfg"
  shows "int (fst (snd (run_main cfg pkts))) \<le> maxPackets cfg"
  using quiet_loop_count[OF assms(1) _ assms(2), of init_state 0 0 pkts] assms(2)
  by (simp add: run_main_def init_state_def)

text \<open>
  C3, at an input where the code leaves the claim: \<open>-c 3\<close> with the summaries on. The
  summary that the second packet triggers, eleven seconds into the capture, sets
  \<open>pktCnt\<close> back to 0 (line 677), so the test \<open>pktCnt >= maxPackets\<close> of line 668 first
  holds at the fifth packet: five packets are processed, and the loop ends with
  \<open>pktCnt = 3\<close>. With \<open>-q\<close> the same capture is stopped after three packets.
\<close>

theorem count_limit_exceeded_with_summaries:
  "maxPackets count_config = 3 \<and> sumInt count_config = 10 \<and> length ticks = 6 \<and>
   fst (snd (run_main count_config ticks)) = 5 \<and>
   pktCnt (fst (run_main count_config ticks)) = 3 \<and>
   fst (snd (run_main quiet_count_config ticks)) = 3"
  by (simp add: run_main_def count_config_def quiet_count_config_def ticks_def tick_def
      eval_defs)

subsection \<open>The size of the flow table (C4)\<close>

lemma digit_inj: "a < 10 \<Longrightarrow> b < 10 \<Longrightarrow> digit a = digit b \<Longrightarrow> a = b"
  unfolding digit_def by (simp add: nth_Cons' split: if_splits)

lemma to_string_nonempty: "to_string n \<noteq> []"
  by (subst to_string.simps) simp

lemma to_string_len1: "length (to_string n) = 1 \<longleftrightarrow> n < 10"
  by (subst to_string.simps) (simp add: to_string_nonempty)

lemma to_string_inj: "to_string a = to_string b \<Longrightarrow> a = b"
proof (induction a arbitrary: b rule: to_string.induct)
  case (1 n)
  show ?case
  proof (cases "n < 10")
    case True
    then have "length (to_string b) = 1"
      using "1.prems"[symmetric] to_string_len1[of n] by simp
    then have b: "b < 10" using to_string_len1[of b] by simp
    from True b "1.prems" have "digit n = digit b" by (simp add: to_string.simps)
    with True b show ?thesis by (rule digit_inj)
  next
    case False
    then have "length (to_string b) \<noteq> 1"
      using "1.prems"[symmetric] to_string_len1[of n] by simp
    then have b: "\<not> b < 10" using to_string_len1[of b] by simp
    from False b "1.prems"
    have "to_string (n div 10) @ [digit (n mod 10)] = to_string (b div 10) @ [digit (b mod 10)]"
      by (simp add: to_string.simps[of n] to_string.simps[of b])
    then have "to_string (n div 10) = to_string (b div 10)"
      and d: "digit (n mod 10) = digit (b mod 10)" by simp_all
    then have "n div 10 = b div 10" using "1.IH"[OF False] by simp
    moreover have "n mod 10 = b mod 10" using d by (intro digit_inj) simp_all
    ultimately show ?thesis by (metis div_mult_mod_eq)
  qed
qed

lemma flood_key_inj: "flood_key i = flood_key j \<Longrightarrow> i = j"
  by (auto simp add: flood_key_def dest: to_string_inj)

lemma port_unat:
  assumes "k \<le> 10001"
  shows "unat (1024 + word_of_nat k :: u16) = 1024 + k"
proof -
  have "(1024 + word_of_nat k :: u16) = of_nat (1024 + k)" by simp
  moreover have "unat (of_nat (1024 + k) :: u16) = 1024 + k"
    using assms by (simp only: unat_of_nat) simp
  ultimately show ?thesis by (simp only:)
qed

lemma flood_pkt_fields:
  assumes "k \<le> 10001"
  shows "find_tcp (flood_pkt k) =
           Some \<lparr>sport = 1024 + word_of_nat k, dport = 80, seq = 1000, ack_seq = 0,
                  flags = TCP_SYN, tcp_header_size = 32, tcp_timestamp = None\<rparr>"
    and "ip_info (flood_pkt k)
           \<lparr>sport = 1024 + word_of_nat k, dport = 80, seq = 1000, ack_seq = 0,
            flags = TCP_SYN, tcp_header_size = 32, tcp_timestamp = None\<rparr>
         = Some (''10.0.0.1'', ''10.0.0.2'', 0, 66)"
    and "to_string 80 = ''80''"
  using assms
  by (simp_all add: flood_pkt_def tcp_packet_def ip_info_def hostA_def hostB_def
      to_string.simps[of 80] to_string.simps[of 8] digit_def)

lemma flood_step:
  assumes k: "k \<le> 10000"
    and s: "offTm s = 100" "flowCnt s = int k" "map fst (flows s) = map flood_key [0..<k]"
    and run: "processPacket default_config s (flood_pkt k) = (s', out)"
  shows "offTm s' = 100 \<and> capTm s' = 0 \<and> flowCnt s' = int (Suc k) \<and>
         map fst (flows s') = map flood_key [0..<Suc k] \<and> pktCnt s' = pktCnt s + 1 \<and>
         startm s' = startm s \<and> uniDir s' = uniDir s + 1"
proof -
  from k have k1: "k \<le> 10001" by simp
  let ?t = "\<lparr>sport = 1024 + word_of_nat k, dport = 80, seq = 1000, ack_seq = 0,
             flags = TCP_SYN, tcp_header_size = 32, tcp_timestamp = None\<rparr> :: tcp_hdr"
  define src where "src = ''10.0.0.1'' @ '':'' @ to_string (unat (sport ?t))"
  define dst where "dst = ''10.0.0.2'' @ '':'' @ to_string (unat (dport ?t))"
  define s2 where "s2 = set_capTm (flood_pkt k) (s\<lparr>pktCnt := pktCnt s + 1\<rparr>)"
  note f = flood_pkt_fields[OF k1]
  have fk: "src @ ''+'' @ dst = flood_key k"
    by (simp add: src_def dst_def f(3) port_unat[OF k1] flood_key_def)
  have rk: "dst @ ''+'' @ src \<notin> set (map flood_key [0..<Suc k])"
    by (auto simp add: src_def dst_def f(3) port_unat[OF k1] flood_key_def)
  have s2: "offTm s2 = 100" "capTm s2 = 0" "flowCnt s2 = int k" "flows s2 = flows s"
    "pktCnt s2 = pktCnt s + 1" "startm s2 = startm s" "uniDir s2 = uniDir s"
    using s by (simp_all add: s2_def set_capTm_def flood_pkt_def tcp_packet_def)
  have keys: "fst ` set (flows s) = set (map flood_key [0..<k])"
    by (simp only: set_map[symmetric] s(3))
  have nk: "flood_key k \<notin> set (map flood_key [0..<k])"
    by (auto dest: flood_key_inj)
  have absent: "map_of (flows s2) (flood_key k) = None"
    using nk by (simp only: s2 map_of_eq_None_iff keys not_False_eq_True)
  have "dst @ ''+'' @ src \<notin> fst ` set (flows s2 @ [(flood_key k, new_flowRec (flood_key k))])"
    using rk by (simp add: s2 keys)
  then have norev: "map_of (flows s2 @ [(flood_key k, new_flowRec (flood_key k))])
                      (dst @ ''+'' @ src) = None"
    by (simp only: map_of_eq_None_iff not_False_eq_True)
  have g: "get_flow default_config (flood_key k) (dst @ ''+'' @ src) s2 =
             Some (s2\<lparr>flows := flows s2 @ [(flood_key k, new_flowRec (flood_key k))],
                       flowCnt := flowCnt s2 + 1\<rparr>, new_flowRec (flood_key k))"
    using absent norev k
    by (simp add: get_flow_def Let_def s2 default_config_def del: map_of_append)
  from processPacket_eq[OF f(1) f(2) src_def dst_def s2_def, of default_config, unfolded fk]
    run g
  have s': "s' = fst (classify default_config
                   (s2\<lparr>flows := flows s2 @ [(flood_key k, new_flowRec (flood_key k))],
                        flowCnt := flowCnt s2 + 1\<rparr>)
                   (new_flowRec (flood_key k)) ?t ''10.0.0.2'' src dst 0 66)"
    by simp
  show ?thesis
    unfolding s' classify_fst using s(3) by (simp add: s2 map_fst_map_entry new_flowRec_def)
qed

text \<open>The keys of the packets, and the packet that finds more than \<open>maxFlows\<close> flows.\<close>

lemma flood_keys:
  assumes "k \<le> 10001"
  shows "flow_strs (flood_pkt k) = Some (''10.0.0.1:'' @ to_string (1024 + k), ''10.0.0.2:80'')"
    and "fwd_key (flood_pkt k) = Some (flood_key k)"
    and "rev_key (flood_pkt k) \<noteq> Some (flood_key j)"
proof -
  note f = flood_pkt_fields[OF assms]
  from flow_strs_eq[OF f(1) f(2)]
  show fs: "flow_strs (flood_pkt k) = Some (''10.0.0.1:'' @ to_string (1024 + k), ''10.0.0.2:80'')"
    by (simp add: f(3) port_unat[OF assms])
  show "fwd_key (flood_pkt k) = Some (flood_key k)"
    by (simp add: fwd_key_def fs flood_key_def)
  show "rev_key (flood_pkt k) \<noteq> Some (flood_key j)"
    by (simp add: rev_key_def fs flood_key_def)
qed

lemma flood_one_direction:
  assumes "n \<le> 10001"
  shows "list_all (\<lambda>q. rev_key q \<noteq> Some (flood_key j)) (flood n @ [flood_pkt n])"
  using assms by (auto simp add: list_all_iff flood_def flood_keys(3))

lemma flood_refused:
  assumes k: "10000 < k" "k \<le> 10001"
    and s: "flowCnt s = int k" "map fst (flows s) = map flood_key [0..<k]"
  shows "processPacket default_config s (flood_pkt k) =
           (set_capTm (flood_pkt k) (s\<lparr>pktCnt := pktCnt s + 1\<rparr>), FlowDropped)"
proof -
  note f = flood_pkt_fields[OF k(2)]
  have keys: "fst ` set (flows s) = set (map flood_key [0..<k])"
    by (simp only: set_map[symmetric] s(2))
  have nk: "flood_key k \<notin> set (map flood_key [0..<k])"
    by (auto dest: flood_key_inj)
  have absent: "map_of (flows s) (flood_key k) = None"
    using nk by (simp only: map_of_eq_None_iff keys not_False_eq_True)
  have a: "map_of (flows s) ((''10.0.0.1:'' @ to_string (1024 + k)) @ ''+'' @ ''10.0.0.2:80'') = None"
    using absent by (simp add: flood_key_def)
  have m: "maxFlows default_config < flowCnt s"
    using k(1) by (simp add: s(1) default_config_def)
  from processPacket_refused[OF f(1) f(2) flood_keys(1)[OF k(2)] a m] show ?thesis .
qed

lemma run_loop_flood_step:
  assumes "capTm (fst (processPacket default_config s p)) = 0"
  shows "fst (run_loop default_config 10 10 s (p # rest)) =
         fst (run_loop default_config 10 10 (fst (processPacket default_config s p)) rest)"
  using assms by (simp add: split_beta Let_def default_config_def)

lemma flood_loop:
  assumes "k + m \<le> 10001" "offTm s = 100" "flowCnt s = int k"
    and "map fst (flows s) = map flood_key [0..<k]"
  shows "flowCnt (fst (run_loop default_config 10 10 s (map flood_pkt [k..<k + m]))) = int (k + m) \<and>
         map fst (flows (fst (run_loop default_config 10 10 s (map flood_pkt [k..<k + m]))))
           = map flood_key [0..<k + m] \<and>
         uniDir (fst (run_loop default_config 10 10 s (map flood_pkt [k..<k + m])))
           = uniDir s + int m"
  using assms
proof (induction m arbitrary: k s)
  case 0
  then show ?case by simp
next
  case (Suc m)
  obtain s' out where run: "processPacket default_config s (flood_pkt k) = (s', out)"
    by (cases "processPacket default_config s (flood_pkt k)")
  from Suc.prems(1) have k: "k \<le> 10000" by simp
  from flood_step[OF k Suc.prems(2,3,4) run]
  have s': "offTm s' = 100" "capTm s' = 0" "flowCnt s' = int (Suc k)"
    "map fst (flows s') = map flood_key [0..<Suc k]" "uniDir s' = uniDir s + 1" by simp_all
  have l: "[k..<k + Suc m] = k # [Suc k..<Suc k + m]"
    by (simp add: upt_conv_Cons)
  have "fst (run_loop default_config 10 10 s (map flood_pkt [k..<k + Suc m])) =
        fst (run_loop default_config 10 10 s' (map flood_pkt [Suc k..<Suc k + m]))"
    unfolding l using run_loop_flood_step[of s "flood_pkt k"] run s'(2) by simp
  moreover from Suc.prems(1) have "Suc k + m \<le> 10001" by simp
  note Suc.IH[OF this s'(1,3,4)]
  ultimately show ?case by (simp add: s'(5))
qed

lemma flood_first:
  "fst (run_loop default_config 0 0 init_state (flood_pkt 0 # rest)) =
   fst (run_loop default_config 10 10
     \<lparr>flows =
        [(''10.0.0.1:1024+10.0.0.2:80'',
          \<lparr>flowname = ''10.0.0.1:1024+10.0.0.2:80'', lastTm = 0, bytesSnt = 66,
             lastSeq = 1001, lastAck = 0, lastPay = 0, revFlow = False\<rparr>)],
      tsTbl = [], seqTbl = [], flowCnt = 1, offTm = 100, capTm = 0, startm = 0,
      pktCnt = 1, not_tcp = 0, no_TS = 1, not_v4or6 = 0, uniDir = 1\<rparr> rest)"
  by (simp add: flood_pkt_def eval_defs split_beta)

lemma flood_Suc: "flood (Suc n) = flood_pkt 0 # map flood_pkt [Suc 0..<Suc 0 + n]"
proof -
  have "[0..<Suc n] = 0 # [Suc 0..<Suc n]" by (rule upt_conv_Cons) simp
  then show ?thesis by (simp only: flood_def list.map add_Suc add_0)
qed

lemma flood_run:
  assumes "n \<le> 10000"
  shows "flowCnt (fst (run_main default_config (flood (Suc n)))) = int (Suc n) \<and>
         map fst (flows (fst (run_main default_config (flood (Suc n)))))
           = map flood_key [0..<Suc n] \<and>
         uniDir (fst (run_main default_config (flood (Suc n)))) = int (Suc n)"
proof -
  let ?s1 = "\<lparr>flows =
        [(''10.0.0.1:1024+10.0.0.2:80'',
          \<lparr>flowname = ''10.0.0.1:1024+10.0.0.2:80'', lastTm = 0, bytesSnt = 66,
             lastSeq = 1001, lastAck = 0, lastPay = 0, revFlow = False\<rparr>)],
      tsTbl = [], seqTbl = [], flowCnt = 1, offTm = 100, capTm = 0, startm = 0,
      pktCnt = 1, not_tcp = 0, no_TS = 1, not_v4or6 = 0, uniDir = 1\<rparr>"
  let ?sf = "fst (run_main default_config (flood (Suc n)))"
  have e: "?sf = fst (run_loop default_config 10 10 ?s1 (map flood_pkt [Suc 0..<Suc 0 + n]))"
    unfolding run_main_def flood_Suc by (rule flood_first)
  have k0: "map fst (flows ?s1) = map flood_key [0..<Suc 0]"
    by (simp add: flood_key_def to_string.simps digit_def)
  have b: "Suc 0 + n \<le> 10001" using assms by simp
  from flood_loop[of "Suc 0" n ?s1, OF b _ _ k0]
  show ?thesis unfolding e by simp
qed

lemma flood_keys_distinct: "distinct (map flood_key [0..<n])"
  by (simp add: distinct_map inj_on_def) (blast dest: flood_key_inj)

text \<open>
  C4, at the input where the code leaves the claim: 10001 packets that each open a new
  flow. \<open>maxFlows\<close> is 10000 and no flag changes it; the test of line 309 is
  \<open>flowCnt > maxFlows\<close>, so the flow that finds 10000 records is still created, and the
  table holds 10001 records under 10001 different keys.
\<close>

theorem flow_table_exceeds_maxFlows:
  "maxFlows default_config = 10000 \<and>
   flowCnt (fst (run_main default_config (flood 10001))) = 10001 \<and>
   length (flows (fst (run_main default_config (flood 10001)))) = 10001 \<and>
   distinct (map fst (flows (fst (run_main default_config (flood 10001)))))"
proof -
  let ?sf = "fst (run_main default_config (flood (Suc 10000)))"
  have n: "(10001 :: nat) = Suc 10000" by simp
  from flood_run[of 10000]
  have c: "flowCnt ?sf = int (Suc 10000)"
    and f: "map fst (flows ?sf) = map flood_key [0..<Suc 10000]"
    by simp_all
  have "length (map fst (flows ?sf)) = Suc 10000"
    by (simp only: f length_map length_upt diff_zero)
  then have len: "length (flows ?sf) = Suc 10000" by (simp only: length_map)
  have d: "distinct (map fst (flows ?sf))"
    by (simp only: f flood_keys_distinct)
  have m: "maxFlows default_config = 10000" by (simp add: default_config_def)
  from c len d m show ?thesis
    unfolding n by simp
qed

subsection \<open>One sample per entry (C5)\<close>

text \<open>
  C5. A lookup that finds an entry returns its time and erases it, so a second lookup
  finds nothing and returns \<open>-1\<close>, until an insertion under the key stores a new entry;
  this holds for both tables. In a run: once a packet \<open>Y\<close> has got a TSval-RTT (a
  seq-RTT) from the entry under \<open>k\<close>, then after any events whose packets do not save
  under \<open>k\<close>, a packet \<open>Z\<close> that looks \<open>k\<close> up, and does not itself save under \<open>k\<close>, gets
  no TSval-RTT (no seq-RTT).
\<close>

theorem take_consumes_entry:
  assumes "processPacket cfg s Y = (s1, Classified vY)"
    and "\<forall>p \<in> set (packets_of evs). ts_key p \<noteq> Some k \<and> seq_key p \<noteq> Some k"
    and "processPacket cfg (run_events cfg evs s1) Z = (s2, Classified vZ)"
  shows "(\<forall>tbl t. map_of tbl k = Some t \<longrightarrow>
            fst (getTStm k tbl) = t \<and> map_of (snd (getTStm k tbl)) k = None \<and>
            getTStm k (snd (getTStm k tbl)) = (- 1, snd (getTStm k tbl)) \<and>
            fst (getSeqTm k tbl) = t \<and> map_of (snd (getSeqTm k tbl)) k = None \<and>
            getSeqTm k (snd (getSeqTm k tbl)) = (- 1, snd (getSeqTm k tbl))) \<and>
         (\<forall>tbl t. map_of tbl k = None \<longrightarrow>
            fst (getTStm k (addTS k t tbl)) = t \<and> fst (getSeqTm k (addSeq k t tbl)) = t) \<and>
         (pd vY \<and> ecr_key Y = Some k \<and> ecr_key Z = Some k \<and> ts_key Z \<noteq> Some k \<longrightarrow> \<not> pd vZ) \<and>
         (sd vY \<and> ack_key Y = Some k \<and> ack_key Z = Some k \<and> seq_key Z \<noteq> Some k \<longrightarrow> \<not> sd vZ)"
proof (intro conjI)
  show "\<forall>tbl t. map_of tbl k = Some t \<longrightarrow>
            fst (getTStm k tbl) = t \<and> map_of (snd (getTStm k tbl)) k = None \<and>
            getTStm k (snd (getTStm k tbl)) = (- 1, snd (getTStm k tbl)) \<and>
            fst (getSeqTm k tbl) = t \<and> map_of (snd (getSeqTm k tbl)) k = None \<and>
            getSeqTm k (snd (getSeqTm k tbl)) = (- 1, snd (getSeqTm k tbl))"
    by (simp add: getTStm_def getSeqTm_def AList.delete_conv)
  show "\<forall>tbl t. map_of tbl k = None \<longrightarrow>
            fst (getTStm k (addTS k t tbl)) = t \<and> fst (getSeqTm k (addSeq k t tbl)) = t"
    by (simp add: fst_getTStm fst_getSeqTm map_of_addTS map_of_addSeq)
  show "pd vY \<and> ecr_key Y = Some k \<and> ecr_key Z = Some k \<and> ts_key Z \<noteq> Some k \<longrightarrow> \<not> pd vZ"
  proof (intro impI, elim conjE)
    assume "pd vY" "ecr_key Y = Some k" and z: "ecr_key Z = Some k" "ts_key Z \<noteq> Some k"
    then have "map_of (tsTbl s1) k = None" using sample_takes_ts[OF assms(1)] by simp
    then have "map_of (tsTbl (run_events cfg evs s1)) k = None"
      by (rule run_events_absent(1)[OF assms(2)])
    from no_sample_ts[OF assms(3) this z] show "\<not> pd vZ" .
  qed
  show "sd vY \<and> ack_key Y = Some k \<and> ack_key Z = Some k \<and> seq_key Z \<noteq> Some k \<longrightarrow> \<not> sd vZ"
  proof (intro impI, elim conjE)
    assume "sd vY" "ack_key Y = Some k" and z: "ack_key Z = Some k" "seq_key Z \<noteq> Some k"
    then have "map_of (seqTbl s1) k = None" using sample_takes_seq[OF assms(1)] by simp
    then have "map_of (seqTbl (run_events cfg evs s1)) k = None"
      by (rule run_events_absent(2)[OF assms(2)])
    from no_sample_seq[OF assms(3) this z] show "\<not> sd vZ" .
  qed
qed

theorem take_consumes_entry_witness:
  "(case snd (processPacket default_config pair_state ack_p3) of
      Classified v \<Rightarrow> pd v \<and> sd v | _ \<Rightarrow> False) \<and>
   ecr_key ack_p3 = ecr_key again_p5 \<and> ack_key ack_p3 = ack_key again_p5 \<and>
   packets_of later_events = [more_p4] \<and>
   (case snd (processPacket default_config
                (run_events default_config later_events
                   (fst (processPacket default_config pair_state ack_p3))) again_p5) of
      Classified v \<Rightarrow> \<not> pd v \<and> \<not> sd v | _ \<Rightarrow> False)"
proof -
  let ?s1 = "fst (processPacket default_config pair_state ack_p3)"
  let ?vY = "\<lparr>pd = True, sd = True, ds = False, dp = False,
         printed = Some \<lparr>o_capTm = 2, o_prtd = Some 1, o_srtd = Some 1, o_dseq = 0,
                         o_dupDiff = None, o_payLen = 0, o_bytesSnt = 132,
                         o_flow = ''10.0.0.1:1234+10.0.0.2:80''\<rparr>\<rparr>"
  let ?vZ = "\<lparr>pd = False, sd = False, ds = False, dp = True,
         printed = Some \<lparr>o_capTm = 4, o_prtd = None, o_srtd = None, o_dseq = 0,
                         o_dupDiff = Some 2, o_payLen = 0, o_bytesSnt = 198,
                         o_flow = ''10.0.0.1:1234+10.0.0.2:80''\<rparr>\<rparr>"
  have Y: "processPacket default_config pair_state ack_p3 = (?s1, Classified ?vY)"
    by (simp add: ack_p3_unfiltered)
  obtain s2 where Z: "processPacket default_config (run_events default_config later_events ?s1)
                        again_p5 = (s2, Classified ?vZ)"
    by (simp add: ack_p3_unfiltered later_events_run again_p5_run)
  have n1: "\<forall>p \<in> set (packets_of later_events).
              ts_key p \<noteq> Some ''7+10.0.0.2:80+10.0.0.1:1234'' \<and>
              seq_key p \<noteq> Some ''7+10.0.0.2:80+10.0.0.1:1234''"
    by (simp add: later_keys)
  have n2: "\<forall>p \<in> set (packets_of later_events).
              ts_key p \<noteq> Some ''5100+10.0.0.2:80+10.0.0.1:1234'' \<and>
              seq_key p \<noteq> Some ''5100+10.0.0.2:80+10.0.0.1:1234''"
    by (simp add: later_keys)
  from take_consumes_entry[OF Y n1 Z] take_consumes_entry[OF Y n2 Z]
  have "\<not> pd ?vZ \<and> \<not> sd ?vZ"
    by (simp add: later_keys ack_p3_keys)
  then show ?thesis
    using Z by (simp add: ack_p3_unfiltered later_keys ack_p3_keys)
qed

subsection \<open>First writer wins (C6)\<close>

text \<open>
  C6. Insertion into a correlation table is first-writer-wins, in both tables: a second
  insertion under a key never changes what the first one left there; when the key was
  absent, \<open>addTS k t\<close> followed by \<open>addTS k t'\<close> leaves \<open>t\<close>; and a value that was
  already there is kept.
\<close>

theorem try_insert_first_writer_wins:
  "(map_of tbl k = None \<longrightarrow>
      map_of (addTS k t' (addTS k t tbl)) k = Some t \<and>
      map_of (addSeq k t' (addSeq k t tbl)) k = Some t) \<and>
   map_of (addTS k t' (addTS k t tbl)) k = map_of (addTS k t tbl) k \<and>
   map_of (addSeq k t' (addSeq k t tbl)) k = map_of (addSeq k t tbl) k \<and>
   (\<forall>v. map_of tbl k = Some v \<longrightarrow>
      map_of (addTS k t tbl) k = Some v \<and> map_of (addSeq k t tbl) k = Some v)"
  by (simp add: map_of_addTS map_of_addSeq)

theorem try_insert_first_writer_wins_witness:
  "map_of ([] :: (string \<times> real) list) ''100+10.0.0.1:1234+10.0.0.2:80'' = None \<and>
   map_of (addTS ''100+10.0.0.1:1234+10.0.0.2:80'' 2
            (addTS ''100+10.0.0.1:1234+10.0.0.2:80'' 1 []))
     ''100+10.0.0.1:1234+10.0.0.2:80'' = Some 1 \<and>
   map_of (addSeq ''100+10.0.0.1:1234+10.0.0.2:80'' 2
            (addSeq ''100+10.0.0.1:1234+10.0.0.2:80'' 1 []))
     ''100+10.0.0.1:1234+10.0.0.2:80'' = Some 1 \<and>
   map_of [(''100+10.0.0.1:1234+10.0.0.2:80'', 5 :: real)]
     ''100+10.0.0.1:1234+10.0.0.2:80'' = Some 5 \<and>
   map_of (addTS ''100+10.0.0.1:1234+10.0.0.2:80'' 1
            [(''100+10.0.0.1:1234+10.0.0.2:80'', 5)])
     ''100+10.0.0.1:1234+10.0.0.2:80'' = Some 5"
  using try_insert_first_writer_wins [of "[]" "''100+10.0.0.1:1234+10.0.0.2:80''" 2 1]
    try_insert_first_writer_wins
      [of "[(''100+10.0.0.1:1234+10.0.0.2:80'', 5)]" "''100+10.0.0.1:1234+10.0.0.2:80''" 2 1]
  by simp

subsection \<open>What cleanUp keeps (C7)\<close>




subsection \<open>The timestamp gate, and flows seen in one direction (C8)\<close>

lemma split_unique:
  assumes "CHR ''+'' \<notin> set a" "CHR ''+'' \<notin> set c" "a @ ''+'' @ b = c @ ''+'' @ d"
  shows "a = c \<and> b = d"
  using assms
proof (induction a arbitrary: c)
  case Nil
  then show ?case by (cases c) auto
next
  case (Cons x a)
  then show ?case by (cases c) auto
qed

lemma fwd_is_rev:
  assumes "wf_packet q" "wf_packet p" "fwd_key q = Some K" "rev_key p = Some K"
  shows "rev_key q = fwd_key p"
proof -
  from assms(3) obtain sq dq where q: "flow_strs q = Some (sq, dq)" and kq: "K = sq @ ''+'' @ dq"
    by (auto simp add: fwd_key_def)
  from assms(4) obtain sp dp' where p: "flow_strs p = Some (sp, dp')" and kp: "K = dp' @ ''+'' @ sp"
    by (auto simp add: rev_key_def)
  from assms(1) q have "CHR ''+'' \<notin> set sq" by (simp add: wf_packet_def)
  moreover from assms(2) p have "CHR ''+'' \<notin> set dp'" by (simp add: wf_packet_def)
  ultimately have "sq = dp' \<and> dq = sp"
    using kq kp by (intro split_unique) simp_all
  then show ?thesis by (simp add: rev_key_def fwd_key_def q p)
qed

lemma flows_inv_mono: "flows_inv S tbl \<Longrightarrow> S \<subseteq> S' \<Longrightarrow> flows_inv S' tbl"
  unfolding flows_inv_def by blast

lemma flows_inv_filter: "flows_inv S tbl \<Longrightarrow> flows_inv S (filter P tbl)"
  unfolding flows_inv_def by auto

lemma get_flow_inv:
  assumes I: "flows_inv S (flows s)" and g: "get_flow cfg fstr rstr s = Some (s3, fr0)"
    and p: "fwd_key p = Some fstr" "rev_key p = Some rstr"
    and wf: "wf_packet p" "\<forall>q \<in> S. wf_packet q"
  shows "flows_inv (insert p S) (flows s3)"
proof (cases "map_of (flows s) fstr")
  case (Some fr)
  with g have "flows s3 = flows s" by (simp add: get_flow_def)
  with I show ?thesis by (auto intro: flows_inv_mono)
next
  case None
  let ?new = "new_flowRec fstr"
  let ?fl1 = "flows s @ [(fstr, ?new)]"
  let ?f = "\<lambda>r. r\<lparr>revFlow := True\<rparr>"
  have I1: "flows_inv (insert p S) ?fl1"
    using I p(1) unfolding flows_inv_def by (auto simp add: new_flowRec_def)
  show ?thesis
  proof (cases "map_of ?fl1 rstr \<noteq> None")
    case False
    with g None have "flows s3 = ?fl1"
      by (auto simp add: get_flow_def Let_def split: if_splits)
    with I1 show ?thesis by simp
  next
    case True
    with g None have fl3: "flows s3 = AList.map_entry fstr ?f (AList.map_entry rstr ?f ?fl1)"
      by (auto simp add: get_flow_def Let_def split: if_splits)
    from True have "rstr \<in> fst ` set ?fl1" by (simp only: map_of_eq_None_iff not_not)
    then have "rstr = fstr \<or> (\<exists>r. (rstr, r) \<in> set (flows s))" by auto
    then have Qf: "\<exists>q \<in> insert p S. rev_key q = Some fstr"
    proof
      assume "rstr = fstr"
      with p(2) show ?thesis by auto
    next
      assume "\<exists>r. (rstr, r) \<in> set (flows s)"
      with I obtain q where q: "q \<in> S" "fwd_key q = Some rstr"
        unfolding flows_inv_def by blast
      from fwd_is_rev[OF _ wf(1) q(2) p(2)] wf(2) q(1) p(1) show ?thesis by auto
    qed
    have Qr: "\<exists>q \<in> insert p S. rev_key q = Some rstr" using p(2) by auto
    show ?thesis
      unfolding flows_inv_def
    proof (clarify)
      fix K r assume "(K, r) \<in> set (flows s3)"
      then obtain r1 where r1: "(K, r1) \<in> set (AList.map_entry rstr ?f ?fl1)"
        and c1: "r = r1 \<or> (K = fstr \<and> r = ?f r1)"
        unfolding fl3 by (blast dest: set_map_entry)
      then obtain r0 where r0: "(K, r0) \<in> set ?fl1"
        and c0: "r1 = r0 \<or> (K = rstr \<and> r1 = ?f r0)"
        by (blast dest: set_map_entry)
      from I1 r0 have P: "\<exists>q \<in> insert p S. fwd_key q = Some K"
        and Q0: "revFlow r0 \<longrightarrow> (\<exists>q \<in> insert p S. rev_key q = Some K)"
        unfolding flows_inv_def by blast+
      have "revFlow r \<longrightarrow> (\<exists>q \<in> insert p S. rev_key q = Some K)"
        using c1 c0 Q0 Qf Qr by auto
      with P show "(\<exists>q \<in> insert p S. fwd_key q = Some K) \<and>
                   (revFlow r \<longrightarrow> (\<exists>q \<in> insert p S. rev_key q = Some K))" by simp
    qed
  qed
qed

lemma processPacket_inv:
  assumes I: "flows_inv S (flows s)" and wf: "wf_packet p" "\<forall>q \<in> S. wf_packet q"
    and run: "processPacket cfg s p = (s', out)"
  shows "flows_inv (insert p S) (flows s')"
  using run
proof (cases rule: processPacket_cases)
  case skip
  with I show ?thesis by (auto intro: flows_inv_mono)
next
  case (classified t ips ipd pay len v)
  define src where "src = ips @ '':'' @ to_string (unat (sport t))"
  define dst where "dst = ipd @ '':'' @ to_string (unat (dport t))"
  from processPacket_Classified[OF run[unfolded classified(3)] classified(1,2) src_def dst_def]
  obtain s3 fr0 where
    g: "get_flow cfg (src @ ''+'' @ dst) (dst @ ''+'' @ src)
          (set_capTm p (s\<lparr>pktCnt := pktCnt s + 1\<rparr>)) = Some (s3, fr0)" and
    s': "s' = fst (classify cfg s3 fr0 t ipd src dst pay len)" and
    m: "map_of (flows s3) (src @ ''+'' @ dst) = Some fr0"
    by blast
  note keys = packet_keys(1,2)[OF classified(1,2) src_def dst_def]
  have "flows_inv S (flows (set_capTm p (s\<lparr>pktCnt := pktCnt s + 1\<rparr>)))"
    using I by simp
  from get_flow_inv[OF this g keys wf]
  have I3: "flows_inv (insert p S) (flows s3)" .
  from m have in3: "(src @ ''+'' @ dst, fr0) \<in> set (flows s3)" by (rule map_of_SomeD)
  show ?thesis
    unfolding flows_inv_def
  proof (clarify)
    fix K r assume "(K, r) \<in> set (flows s')"
    then obtain r0 where r0: "(K, r0) \<in> set (flows s3)"
      and c: "r = r0 \<or> (K = src @ ''+'' @ dst \<and> revFlow r = revFlow fr0)"
      unfolding s' classify_fst by (auto dest!: set_map_entry)
    from I3 r0 in3 c
    show "(\<exists>q \<in> insert p S. fwd_key q = Some K) \<and>
          (revFlow r \<longrightarrow> (\<exists>q \<in> insert p S. rev_key q = Some K))"
      unfolding flows_inv_def by blast
  qed
qed

lemma run_events_inv:
  assumes "\<forall>q \<in> set (packets_of evs). wf_packet q"
  shows "flows_inv (set (packets_of evs)) (flows (run_events cfg evs init_state))"
  using assms
proof (induction evs rule: rev_induct)
  case Nil
  show ?case by (simp add: run_events_def init_state_def flows_inv_def)
next
  case (snoc e evs)
  then have ih: "flows_inv (set (packets_of evs)) (flows (run_events cfg evs init_state))"
    and wfs: "\<forall>q \<in> set (packets_of evs). wf_packet q"
    by (simp_all add: packets_of_snoc)
  show ?case
  proof (cases e)
    case (Packet p)
    with snoc.prems have wfp: "wf_packet p" by (simp add: packets_of_snoc)
    obtain s' out where r: "processPacket cfg (run_events cfg evs init_state) p = (s', out)"
      by (cases "processPacket cfg (run_events cfg evs init_state) p")
    from processPacket_inv[OF ih wfp wfs r] r show ?thesis
      by (simp add: run_events_snoc packets_of_snoc Packet)
  next
    case (CleanUp n)
    then show ?thesis
      using ih by (simp add: run_events_snoc packets_of_snoc cleanUp_def flows_inv_filter)
  next
    case Summary
    then show ?thesis using ih by (simp add: run_events_snoc packets_of_snoc)
  qed
qed

text \<open>What holds of a packet that reaches the classification.\<close>

lemma classified_gate_and_unidirectional:
  assumes "find_tcp pkt = Some t" "ip_info pkt t = Some (ips, ipd, pay, len)"
    and "flow_strs pkt = Some (src, dst)"
    and "processPacket cfg s pkt = (s', Classified v)"
  shows "(tsTbl s', pd v) =
           (case tcp_timestamp t of
              None \<Rightarrow> (tsTbl s, False)
            | Some (tsval, ecr) \<Rightarrow>
                if tsval \<noteq> 0 \<and> (ecr \<noteq> 0 \<or> flags t AND TCP_SYN \<noteq> 0) \<and>
                   bidirectional s' (src @ ''+'' @ dst)
                then (fst (pping cfg (capTm s') ipd (src @ ''+'' @ dst) src dst tsval ecr (tsTbl s)),
                      fst (snd (pping cfg (capTm s') ipd (src @ ''+'' @ dst) src dst tsval ecr
                                  (tsTbl s))))
                else (tsTbl s, False)) \<and>
         (\<forall>evs. s = run_events cfg evs init_state \<and>
                (\<forall>q \<in> set (packets_of evs @ [pkt]).
                   wf_packet q \<and> rev_key q \<noteq> Some (src @ ''+'' @ dst)) \<longrightarrow>
            \<not> bidirectional s' (src @ ''+'' @ dst) \<and> \<not> pd v \<and> \<not> sd v \<and>
            uniDir s' = uniDir s + 1 \<and> tsTbl s' = tsTbl s \<and> seqTbl s' = seqTbl s \<and>
            (\<forall>ob. printed v = Some ob \<longrightarrow> o_prtd ob = None \<and> o_srtd ob = None))"
proof -
  have sd: "src = ips @ '':'' @ to_string (unat (sport t))"
           "dst = ipd @ '':'' @ to_string (unat (dport t))"
    using assms(3) flow_strs_eq[OF assms(1,2)] by simp_all
  from processPacket_Classified[OF assms(4,1,2) sd]
  obtain s3 fr0 where
    s': "s' = fst (classify cfg s3 fr0 t ipd src dst pay len)" and
    v: "v = snd (classify cfg s3 fr0 t ipd src dst pay len)" and
    ts: "tsTbl s3 = tsTbl s" and sq: "seqTbl s3 = seqTbl s" and un: "uniDir s3 = uniDir s" and
    cap: "capTm s3 = capTm s'" and
    bi: "bidirectional s' (src @ ''+'' @ dst) = revFlow fr0"
    by blast
  have T: "tsTbl s' = fst (ts_rtd cfg (capTm s') ipd (src @ ''+'' @ dst) src dst fr0 t (tsTbl s))"
    using cap ts by (simp add: s' classify_fst)
  have P: "pd v = fst (snd (ts_rtd cfg (capTm s') ipd (src @ ''+'' @ dst) src dst fr0 t (tsTbl s)))"
    using cap ts by (simp add: v s' classify_flags classify_fst)
  have gate: "(tsTbl s', pd v) =
           (case tcp_timestamp t of
              None \<Rightarrow> (tsTbl s, False)
            | Some (tsval, ecr) \<Rightarrow>
                if tsval \<noteq> 0 \<and> (ecr \<noteq> 0 \<or> flags t AND TCP_SYN \<noteq> 0) \<and>
                   bidirectional s' (src @ ''+'' @ dst)
                then (fst (pping cfg (capTm s') ipd (src @ ''+'' @ dst) src dst tsval ecr (tsTbl s)),
                      fst (snd (pping cfg (capTm s') ipd (src @ ''+'' @ dst) src dst tsval ecr
                                  (tsTbl s))))
                else (tsTbl s, False))"
    unfolding T P bi by (auto simp add: ts_rtd_def Let_def split: option.splits)
  have uni: "\<forall>evs. s = run_events cfg evs init_state \<and>
                (\<forall>q \<in> set (packets_of evs @ [pkt]).
                   wf_packet q \<and> rev_key q \<noteq> Some (src @ ''+'' @ dst)) \<longrightarrow>
            \<not> bidirectional s' (src @ ''+'' @ dst) \<and> \<not> pd v \<and> \<not> sd v \<and>
            uniDir s' = uniDir s + 1 \<and> tsTbl s' = tsTbl s \<and> seqTbl s' = seqTbl s \<and>
            (\<forall>ob. printed v = Some ob \<longrightarrow> o_prtd ob = None \<and> o_srtd ob = None)"
  proof (intro allI impI, elim conjE)
    fix evs
    assume s: "s = run_events cfg evs init_state"
      and h: "\<forall>q \<in> set (packets_of evs @ [pkt]).
                wf_packet q \<and> rev_key q \<noteq> Some (src @ ''+'' @ dst)"
    have "run_events cfg (evs @ [Packet pkt]) init_state = s'"
      using assms(4) by (simp add: run_events_snoc s)
    moreover have "flows_inv (set (packets_of (evs @ [Packet pkt])))
                     (flows (run_events cfg (evs @ [Packet pkt]) init_state))"
      using h by (intro run_events_inv) (simp add: packets_of_snoc)
    ultimately have inv: "flows_inv (set (packets_of evs @ [pkt])) (flows s')"
      by (simp add: packets_of_snoc)
    have nb: "\<not> bidirectional s' (src @ ''+'' @ dst)"
    proof
      assume "bidirectional s' (src @ ''+'' @ dst)"
      then obtain fr where "map_of (flows s') (src @ ''+'' @ dst) = Some fr" "revFlow fr"
        by (auto simp add: bidirectional_def split: option.splits)
      then have "(src @ ''+'' @ dst, fr) \<in> set (flows s')" "revFlow fr"
        by (auto dest: map_of_SomeD)
      with inv obtain q where "q \<in> set (packets_of evs @ [pkt])"
        "rev_key q = Some (src @ ''+'' @ dst)"
        unfolding flows_inv_def by blast
      with h show False by blast
    qed
    with bi have nr: "\<not> revFlow fr0" by simp
    have pdv: "\<not> pd v" and tsu: "tsTbl s' = tsTbl s"
      using nr by (simp_all add: P T ts_rtd_uni)
    have sdv: "\<not> sd v" and squ: "seqTbl s' = seqTbl s"
      using nr sq by (simp_all add: v s' classify_flags classify_fst seq_rtd_uni)
    have u: "uniDir s' = uniDir s + 1"
      using nr un by (simp add: s' classify_fst)
    have pr: "\<forall>ob. printed v = Some ob \<longrightarrow> o_prtd ob = None \<and> o_srtd ob = None"
      using classify_printed_rtt[of cfg s3 fr0 t ipd src dst pay len] pdv sdv
      unfolding v by blast
    from nb pdv sdv u tsu squ pr
    show "\<not> bidirectional s' (src @ ''+'' @ dst) \<and> \<not> pd v \<and> \<not> sd v \<and>
            uniDir s' = uniDir s + 1 \<and> tsTbl s' = tsTbl s \<and> seqTbl s' = seqTbl s \<and>
            (\<forall>ob. printed v = Some ob \<longrightarrow> o_prtd ob = None \<and> o_srtd ob = None)"
      by blast
  qed
  from gate uni show ?thesis by blast
qed

text \<open>
  C8, as the code has it. A packet whose flow has no record when \<open>flowCnt > maxFlows\<close>
  returns at line 311, before the counters of line 330: nothing is printed, and the
  tables, the flows and \<open>uniDir\<close> are as they were. Every other packet that has a TCP and
  an IP header reaches the classification. There the block that saves the packet's
  \<open>TSval\<close> and looks its \<open>ECR\<close> up runs exactly when the packet has a timestamp option
  with \<open>TSval \<noteq> 0\<close> and (\<open>ECR \<noteq> 0\<close> or SYN set) and its flow is marked bidirectional;
  otherwise the timestamp table is left as it was and there is no TSval-RTT. And in any
  run from the initial state in which no packet of the reverse direction has been
  processed, the packet finds its flow not marked, gets neither RTT, on the line or off
  it, leaves both tables unchanged and adds one to \<open>uniDir\<close>.
\<close>

theorem ts_gate_and_unidirectional:
  assumes "find_tcp pkt = Some t" "ip_info pkt t = Some (ips, ipd, pay, len)"
    and "flow_strs pkt = Some (src, dst)"
    and "processPacket cfg s pkt = (s', out)"
  shows "if map_of (flows s) (src @ ''+'' @ dst) = None \<and> maxFlows cfg < flowCnt s
         then out = FlowDropped \<and> uniDir s' = uniDir s \<and> tsTbl s' = tsTbl s \<and>
              seqTbl s' = seqTbl s \<and> flows s' = flows s
         else \<exists>v. out = Classified v \<and>
           (tsTbl s', pd v) =
             (case tcp_timestamp t of
                None \<Rightarrow> (tsTbl s, False)
              | Some (tsval, ecr) \<Rightarrow>
                  if tsval \<noteq> 0 \<and> (ecr \<noteq> 0 \<or> flags t AND TCP_SYN \<noteq> 0) \<and>
                     bidirectional s' (src @ ''+'' @ dst)
                  then (fst (pping cfg (capTm s') ipd (src @ ''+'' @ dst) src dst tsval ecr
                               (tsTbl s)),
                        fst (snd (pping cfg (capTm s') ipd (src @ ''+'' @ dst) src dst tsval ecr
                                    (tsTbl s))))
                  else (tsTbl s, False)) \<and>
           (\<forall>evs. s = run_events cfg evs init_state \<and>
                  (\<forall>q \<in> set (packets_of evs @ [pkt]).
                     wf_packet q \<and> rev_key q \<noteq> Some (src @ ''+'' @ dst)) \<longrightarrow>
              \<not> bidirectional s' (src @ ''+'' @ dst) \<and> \<not> pd v \<and> \<not> sd v \<and>
              uniDir s' = uniDir s + 1 \<and> tsTbl s' = tsTbl s \<and> seqTbl s' = seqTbl s \<and>
              (\<forall>ob. printed v = Some ob \<longrightarrow> o_prtd ob = None \<and> o_srtd ob = None))"
proof (cases "map_of (flows s) (src @ ''+'' @ dst) = None \<and> maxFlows cfg < flowCnt s")
  case True
  then have "processPacket cfg s pkt = (set_capTm pkt (s\<lparr>pktCnt := pktCnt s + 1\<rparr>), FlowDropped)"
    by (intro processPacket_refused[OF assms(1,2,3)]) simp_all
  with assms(4) have "s' = set_capTm pkt (s\<lparr>pktCnt := pktCnt s + 1\<rparr>)" "out = FlowDropped"
    by simp_all
  then have "out = FlowDropped \<and> uniDir s' = uniDir s \<and> tsTbl s' = tsTbl s \<and>
             seqTbl s' = seqTbl s \<and> flows s' = flows s"
    by simp
  with True show ?thesis by simp
next
  case False
  from processPacket_not_refused[OF assms(1,2,3) False assms(4)]
  obtain v where out: "out = Classified v" .
  from classified_gate_and_unidirectional[OF assms(1,2,3) assms(4)[unfolded out]] out
  have "\<exists>v. out = Classified v \<and>
           (tsTbl s', pd v) =
             (case tcp_timestamp t of
                None \<Rightarrow> (tsTbl s, False)
              | Some (tsval, ecr) \<Rightarrow>
                  if tsval \<noteq> 0 \<and> (ecr \<noteq> 0 \<or> flags t AND TCP_SYN \<noteq> 0) \<and>
                     bidirectional s' (src @ ''+'' @ dst)
                  then (fst (pping cfg (capTm s') ipd (src @ ''+'' @ dst) src dst tsval ecr
                               (tsTbl s)),
                        fst (snd (pping cfg (capTm s') ipd (src @ ''+'' @ dst) src dst tsval ecr
                                    (tsTbl s))))
                  else (tsTbl s, False)) \<and>
           (\<forall>evs. s = run_events cfg evs init_state \<and>
                  (\<forall>q \<in> set (packets_of evs @ [pkt]).
                     wf_packet q \<and> rev_key q \<noteq> Some (src @ ''+'' @ dst)) \<longrightarrow>
              \<not> bidirectional s' (src @ ''+'' @ dst) \<and> \<not> pd v \<and> \<not> sd v \<and>
              uniDir s' = uniDir s + 1 \<and> tsTbl s' = tsTbl s \<and> seqTbl s' = seqTbl s \<and>
              (\<forall>ob. printed v = Some ob \<longrightarrow> o_prtd ob = None \<and> o_srtd ob = None))"
    by blast
  with False show ?thesis by (simp only: if_False)
qed

text \<open>
  The packet that finds 10001 flows in the table: it is the first of its flow, no packet
  of the capture goes from B to A, and each of the 10001 packets before it has added one
  to \<open>uniDir\<close>; it is refused, and \<open>uniDir\<close> stays at 10001.
\<close>

theorem unidirectional_packet_refused_counterexample:
  "fwd_key (flood_pkt 10001) = Some ''10.0.0.1:11025+10.0.0.2:80'' \<and>
   list_all (\<lambda>q. rev_key q \<noteq> Some ''10.0.0.1:11025+10.0.0.2:80'')
     (flood 10001 @ [flood_pkt 10001]) \<and>
   uniDir (fst (run_main default_config (flood 10001))) = 10001 \<and>
   snd (processPacket default_config (fst (run_main default_config (flood 10001)))
          (flood_pkt 10001)) = FlowDropped \<and>
   uniDir (fst (processPacket default_config (fst (run_main default_config (flood 10001)))
                  (flood_pkt 10001))) = 10001"
proof -
  let ?sf = "fst (run_main default_config (flood (Suc 10000)))"
  have n: "(10001 :: nat) = Suc 10000" by simp
  have k: "flood_key (Suc 10000) = ''10.0.0.1:11025+10.0.0.2:80''"
    by (simp add: flood_key_def to_string.simps digit_def)
  from flood_run[of 10000]
  have c: "flowCnt ?sf = int (Suc 10000)"
    and f: "map fst (flows ?sf) = map flood_key [0..<Suc 10000]"
    and u: "uniDir ?sf = int (Suc 10000)"
    by simp_all
  have r: "processPacket default_config ?sf (flood_pkt (Suc 10000)) =
             (set_capTm (flood_pkt (Suc 10000)) (?sf\<lparr>pktCnt := pktCnt ?sf + 1\<rparr>), FlowDropped)"
    by (rule flood_refused[OF _ _ c f]) simp_all
  have fk: "fwd_key (flood_pkt (Suc 10000)) = Some ''10.0.0.1:11025+10.0.0.2:80''"
    using flood_keys(2)[of "Suc 10000"] by (simp only: k)
  have od: "list_all (\<lambda>q. rev_key q \<noteq> Some ''10.0.0.1:11025+10.0.0.2:80'')
              (flood (Suc 10000) @ [flood_pkt (Suc 10000)])"
    using flood_one_direction[of "Suc 10000" "Suc 10000"] by (simp only: k)
  have u1: "uniDir ?sf = 10001" using u by simp
  have "uniDir (fst (processPacket default_config ?sf (flood_pkt (Suc 10000)))) = uniDir ?sf"
    by (simp only: r fst_conv) simp
  then have u2: "uniDir (fst (processPacket default_config ?sf (flood_pkt (Suc 10000)))) = 10001"
    by (simp only: u1)
  have o: "snd (processPacket default_config ?sf (flood_pkt (Suc 10000))) = FlowDropped"
    by (simp only: r snd_conv)
  show ?thesis
    unfolding n by (intro conjI fk od u1 u2 o)
qed

theorem ts_gate_and_unidirectional_witness:
  "wf_packet syn_p1 \<and> wf_packet uni_p2 \<and>
   rev_key syn_p1 = Some ''10.0.0.2:80+10.0.0.1:1234'' \<and>
   rev_key uni_p2 = Some ''10.0.0.2:80+10.0.0.1:1234'' \<and>
   flow_strs uni_p2 = Some (''10.0.0.1:1234'', ''10.0.0.2:80'') \<and>
   uni_state = run_events default_config [Packet syn_p1] init_state \<and>
   uniDir uni_state = 1 \<and>
   uniDir (fst (processPacket default_config uni_state uni_p2)) = 2 \<and>
   \<not> bidirectional (fst (processPacket default_config uni_state uni_p2))
       ''10.0.0.1:1234+10.0.0.2:80'' \<and>
   snd (processPacket default_config uni_state uni_p2)
     = Classified \<lparr>pd = False, sd = False, ds = False, dp = False, printed = None\<rparr> \<and>
   bidirectional (fst (processPacket default_config pair_state ack_p3))
       ''10.0.0.1:1234+10.0.0.2:80'' \<and>
   tsTbl (fst (processPacket default_config pair_state ack_p3))
     = fst (pping default_config 2 ''10.0.0.2'' ''10.0.0.1:1234+10.0.0.2:80''
              ''10.0.0.1:1234'' ''10.0.0.2:80'' 6 7 (tsTbl pair_state)) \<and>
   (case snd (processPacket default_config pair_state ack_p3) of
      Classified v \<Rightarrow> pd v | _ \<Rightarrow> False) \<and>
   flowCnt (fst (run_main default_config (flood 10001))) = 10001 \<and>
   maxFlows default_config = 10000 \<and>
   snd (processPacket default_config (fst (run_main default_config (flood 10001)))
          (flood_pkt 10001)) = FlowDropped \<and>
   uniDir (fst (processPacket default_config (fst (run_main default_config (flood 10001)))
                  (flood_pkt 10001)))
     = uniDir (fst (run_main default_config (flood 10001)))"
proof -
  let ?s' = "fst (processPacket default_config uni_state uni_p2)"
  let ?v = "\<lparr>pd = False, sd = False, ds = False, dp = False, printed = None\<rparr>"
  have run: "processPacket default_config uni_state uni_p2 = (?s', Classified ?v)"
    by (simp add: uni_p2_run)
  have h: "uni_state = run_events default_config [Packet syn_p1] init_state \<and>
           (\<forall>q \<in> set (packets_of [Packet syn_p1] @ [uni_p2]).
              wf_packet q \<and> rev_key q \<noteq> Some (''10.0.0.1:1234'' @ ''+'' @ ''10.0.0.2:80''))"
    by (simp add: uni_state_def packets_of_def uni_p2_keys)
  have n1: "\<not> (map_of (flows uni_state) (''10.0.0.1:1234'' @ ''+'' @ ''10.0.0.2:80'') = None \<and>
                maxFlows default_config < flowCnt uni_state)"
    by (simp add: uni_state_eq)
  from ts_gate_and_unidirectional[OF uni_p2_keys(1) uni_p2_keys(2) uni_p2_keys(3) run] n1
  have "\<exists>v. Classified ?v = Classified v \<and>
          (\<forall>evs. uni_state = run_events default_config evs init_state \<and>
                 (\<forall>q \<in> set (packets_of evs @ [uni_p2]).
                    wf_packet q \<and> rev_key q \<noteq> Some (''10.0.0.1:1234'' @ ''+'' @ ''10.0.0.2:80'')) \<longrightarrow>
             \<not> bidirectional ?s' (''10.0.0.1:1234'' @ ''+'' @ ''10.0.0.2:80'') \<and>
             uniDir ?s' = uniDir uni_state + 1)"
    by (simp only: if_False) blast
  with h have a: "\<not> bidirectional ?s' (''10.0.0.1:1234'' @ ''+'' @ ''10.0.0.2:80'') \<and>
           uniDir ?s' = uniDir uni_state + 1"
    by blast
  let ?s2 = "fst (processPacket default_config pair_state ack_p3)"
  let ?v2 = "\<lparr>pd = True, sd = True, ds = False, dp = False,
         printed = Some \<lparr>o_capTm = 2, o_prtd = Some 1, o_srtd = Some 1, o_dseq = 0,
                         o_dupDiff = None, o_payLen = 0, o_bytesSnt = 132,
                         o_flow = ''10.0.0.1:1234+10.0.0.2:80''\<rparr>\<rparr>"
  have run2: "processPacket default_config pair_state ack_p3 = (?s2, Classified ?v2)"
    by (simp add: ack_p3_unfiltered)
  have b2: "bidirectional ?s2 (''10.0.0.1:1234'' @ ''+'' @ ''10.0.0.2:80'')"
    by (simp add: ack_p3_unfiltered bidirectional_def)
  have c2: "capTm ?s2 = 2" by (simp add: ack_p3_unfiltered)
  have n2: "\<not> (map_of (flows pair_state) (''10.0.0.1:1234'' @ ''+'' @ ''10.0.0.2:80'') = None \<and>
                maxFlows default_config < flowCnt pair_state)"
    by (simp add: pair_state_eq)
  from ts_gate_and_unidirectional[OF ack_p3_keys(1) ack_p3_keys(2) uni_p2_keys(9) run2] n2
  have "\<exists>v. Classified ?v2 = Classified v \<and>
          (tsTbl ?s2, pd v) =
             (case tcp_timestamp \<lparr>sport = 1234, dport = 80, seq = 1001, ack_seq = 5100,
                     flags = TCP_ACK, tcp_header_size = 32, tcp_timestamp = Some (6, 7)\<rparr> of
                None \<Rightarrow> (tsTbl pair_state, False)
              | Some (tsval, ecr) \<Rightarrow>
                  if tsval \<noteq> 0 \<and> (ecr \<noteq> 0 \<or> flags \<lparr>sport = 1234, dport = 80, seq = 1001,
                        ack_seq = 5100, flags = TCP_ACK, tcp_header_size = 32,
                        tcp_timestamp = Some (6, 7)\<rparr> AND TCP_SYN \<noteq> 0) \<and>
                     bidirectional ?s2 (''10.0.0.1:1234'' @ ''+'' @ ''10.0.0.2:80'')
                  then (fst (pping default_config (capTm ?s2) ''10.0.0.2''
                               (''10.0.0.1:1234'' @ ''+'' @ ''10.0.0.2:80'')
                               ''10.0.0.1:1234'' ''10.0.0.2:80'' tsval ecr (tsTbl pair_state)),
                        fst (snd (pping default_config (capTm ?s2) ''10.0.0.2''
                               (''10.0.0.1:1234'' @ ''+'' @ ''10.0.0.2:80'')
                               ''10.0.0.1:1234'' ''10.0.0.2:80'' tsval ecr (tsTbl pair_state))))
                  else (tsTbl pair_state, False))"
    by (simp only: if_False) blast
  with b2 c2
  have b: "tsTbl ?s2 = fst (pping default_config 2 ''10.0.0.2''
              (''10.0.0.1:1234'' @ ''+'' @ ''10.0.0.2:80'')
              ''10.0.0.1:1234'' ''10.0.0.2:80'' 6 7 (tsTbl pair_state))"
    by simp
  let ?sf = "fst (run_main default_config (flood (Suc 10000)))"
  let ?sd = "fst (processPacket default_config ?sf (flood_pkt (Suc 10000)))"
  have n: "(10001 :: nat) = Suc 10000" by simp
  from flood_run[of 10000]
  have c: "flowCnt ?sf = int (Suc 10000)"
    and f: "map fst (flows ?sf) = map flood_key [0..<Suc 10000]"
    by simp_all
  have le: "Suc 10000 \<le> 10001" by simp
  have run3: "processPacket default_config ?sf (flood_pkt (Suc 10000)) = (?sd, FlowDropped)"
    using flood_refused[OF _ le c f] by simp
  have keys: "fst ` set (flows ?sf) = set (map flood_key [0..<Suc 10000])"
    by (simp only: set_map[symmetric] f)
  have nk: "flood_key (Suc 10000) \<notin> set (map flood_key [0..<Suc 10000])"
    by (auto dest: flood_key_inj)
  have "map_of (flows ?sf) (flood_key (Suc 10000)) = None"
    using nk by (simp only: map_of_eq_None_iff keys not_False_eq_True)
  then have y3: "map_of (flows ?sf)
                   ((''10.0.0.1:'' @ to_string (1024 + Suc 10000)) @ ''+'' @ ''10.0.0.2:80'') = None \<and>
                 maxFlows default_config < flowCnt ?sf"
    using c by (simp add: flood_key_def default_config_def)
  note fp = flood_pkt_fields[OF le]
  from ts_gate_and_unidirectional[OF fp(1) fp(2) flood_keys(1)[OF le] run3] y3
  have d: "uniDir ?sd = uniDir ?sf"
    by (simp only: if_True)
  have d1: "flowCnt ?sf = 10001" using c by simp
  have d2: "snd (processPacket default_config ?sf (flood_pkt (Suc 10000))) = FlowDropped"
    by (metis run3 snd_conv)
  have u1: "uniDir uni_state = 1" by (simp add: uni_state_eq)
  have e: "(uni_state = run_events default_config [Packet syn_p1] init_state) = True"
    by (simp add: uni_state_def)
  have m: "maxFlows default_config = 10000" by (simp add: default_config_def)
  from a b b2 u1 d d1 d2 m show ?thesis
    unfolding n by (simp add: e uni_p2_keys uni_p2_run ack_p3_unfiltered)
qed

subsection \<open>Entries saved at time 0 (C9)\<close>

text \<open>
  C9. The first usable packet of a capture gets capture time \<open>usec * 1e-6\<close>, which is 0
  when its microseconds are 0. An entry that was saved at time 0 never gives an RTT
  sample: a packet whose lookup key is that entry's key gets no sample from it, and when
  the lookup runs (on a flow that is marked bidirectional; for the timestamp table with
  a usable timestamp option, for the sequence table on an ACK that is pure or has a new
  acknowledgment number, with the local filter not blocking) the entry is gone
  afterwards. At the call site only \<open>t > 0\<close> is tested, which fails for the time 0 as
  it does for the \<open>-1\<close> of a missing key.
\<close>

theorem zero_time_entry_consumed_silently:
  assumes "find_tcp pkt = Some t" "ip_info pkt t = Some (ips, ipd, pay, len)"
    and "fwd_key pkt = Some K" "map_of (flows s) K = Some fr" "revFlow fr"
    and "processPacket cfg s pkt = (s', out)"
  shows "\<exists>v. out = Classified v \<and>
           (\<forall>k. ecr_key pkt = Some k \<and> map_of (tsTbl s) k = Some 0 \<longrightarrow>
              \<not> pd v \<and>
              ((\<exists>tsval ecr. tcp_timestamp t = Some (tsval, ecr) \<and> tsval \<noteq> 0 \<and>
                             (ecr \<noteq> 0 \<or> flags t AND TCP_SYN \<noteq> 0))
                 \<longrightarrow> map_of (tsTbl s') k = None)) \<and>
           (\<forall>k. ack_key pkt = Some k \<and> map_of (seqTbl s) k = Some 0 \<longrightarrow>
              \<not> sd v \<and>
              ((\<not> filtLocal cfg \<or> localIP cfg \<noteq> ipd) \<and> flags t AND TCP_ACK \<noteq> 0 \<and>
               (pay = 0 \<or> ack_seq t \<noteq> lastAck fr)
                 \<longrightarrow> map_of (seqTbl s') k = None)) \<and>
           (\<forall>k tbl. map_of tbl k = Some 0 \<or> map_of tbl k = None \<longrightarrow>
              \<not> 0 < fst (getTStm k tbl) \<and> \<not> 0 < fst (getSeqTm k tbl)) \<and>
           (\<forall>p0 s0. offTm s0 < 0 \<and> ts_microseconds p0 = 0 \<longrightarrow> capTm (set_capTm p0 s0) = 0)"
proof -
  define src where "src = ips @ '':'' @ to_string (unat (sport t))"
  define dst where "dst = ipd @ '':'' @ to_string (unat (dport t))"
  define s2 where "s2 = set_capTm pkt (s\<lparr>pktCnt := pktCnt s + 1\<rparr>)"
  let ?c = "classify cfg s2 fr t ipd src dst pay len"
  from processPacket_existing(1)[OF assms(1-4) src_def dst_def s2_def, of cfg] assms(6)
  have s': "s' = fst ?c" and out: "out = Classified (snd ?c)" by simp_all
  have fs: "flow_strs pkt = Some (src, dst)"
    using flow_strs_eq[OF assms(1,2)] by (simp add: src_def dst_def)
  have tsT: "tsTbl s' = fst (ts_rtd cfg (capTm s2) ipd (src @ ''+'' @ dst) src dst fr t (tsTbl s))"
    by (simp add: s' classify_fst s2_def)
  have pdv: "pd (snd ?c) = fst (snd (ts_rtd cfg (capTm s2) ipd (src @ ''+'' @ dst) src dst fr t (tsTbl s)))"
    by (simp add: classify_flags s2_def)
  have sqT: "seqTbl s' = fst (seq_rtd cfg (capTm s2) ipd (src @ ''+'' @ dst) src dst fr t pay (seqTbl s))"
    by (simp add: s' classify_fst s2_def)
  have sdv: "sd (snd ?c) = fst (snd (seq_rtd cfg (capTm s2) ipd (src @ ''+'' @ dst) src dst fr t pay (seqTbl s)))"
    by (simp add: classify_flags s2_def)
  have A: "\<forall>k. ecr_key pkt = Some k \<and> map_of (tsTbl s) k = Some 0 \<longrightarrow>
              \<not> pd (snd ?c) \<and>
              ((\<exists>tsval ecr. tcp_timestamp t = Some (tsval, ecr) \<and> tsval \<noteq> 0 \<and>
                             (ecr \<noteq> 0 \<or> flags t AND TCP_SYN \<noteq> 0))
                 \<longrightarrow> map_of (tsTbl s') k = None)"
  proof (intro allI impI, elim conjE)
    fix k assume k: "ecr_key pkt = Some k" and z: "map_of (tsTbl s) k = Some 0"
    from k obtain tsval ecr where o: "tcp_timestamp t = Some (tsval, ecr)"
      and kk: "k = to_string (unat ecr) @ ''+'' @ dst @ ''+'' @ src"
      using assms(1) fs by (auto simp add: ecr_key_def split: option.splits)
    show "\<not> pd (snd ?c) \<and>
              ((\<exists>tsval ecr. tcp_timestamp t = Some (tsval, ecr) \<and> tsval \<noteq> 0 \<and>
                             (ecr \<noteq> 0 \<or> flags t AND TCP_SYN \<noteq> 0))
                 \<longrightarrow> map_of (tsTbl s') k = None)"
      using z assms(5) unfolding tsT pdv kk
      by (auto simp add: o ts_rtd_def pping_def Let_def split_beta fst_getTStm map_of_getTStm
          map_of_addTS)
  qed
  have B: "\<forall>k. ack_key pkt = Some k \<and> map_of (seqTbl s) k = Some 0 \<longrightarrow>
              \<not> sd (snd ?c) \<and>
              ((\<not> filtLocal cfg \<or> localIP cfg \<noteq> ipd) \<and> flags t AND TCP_ACK \<noteq> 0 \<and>
               (pay = 0 \<or> ack_seq t \<noteq> lastAck fr)
                 \<longrightarrow> map_of (seqTbl s') k = None)"
  proof (intro allI impI, elim conjE)
    fix k assume k: "ack_key pkt = Some k" and z: "map_of (seqTbl s) k = Some 0"
    from k have kk: "k = to_string (unat (ack_seq t)) @ ''+'' @ dst @ ''+'' @ src"
      using assms(1) fs by (auto simp add: ack_key_def)
    show "\<not> sd (snd ?c) \<and>
              ((\<not> filtLocal cfg \<or> localIP cfg \<noteq> ipd) \<and> flags t AND TCP_ACK \<noteq> 0 \<and>
               (pay = 0 \<or> ack_seq t \<noteq> lastAck fr)
                 \<longrightarrow> map_of (seqTbl s') k = None)"
      using z assms(5) unfolding sqT sdv kk
      by (auto simp add: seq_rtd_def Let_def split_beta fst_getSeqTm map_of_getSeqTm
          map_of_addSeq)
  qed
  have C: "\<forall>k tbl. map_of tbl k = Some 0 \<or> map_of tbl k = None \<longrightarrow>
              \<not> 0 < fst (getTStm k tbl) \<and> \<not> 0 < fst (getSeqTm k tbl)"
    by (auto simp add: fst_getTStm fst_getSeqTm)
  have D: "\<forall>p0 s0. offTm s0 < 0 \<and> ts_microseconds p0 = 0 \<longrightarrow> capTm (set_capTm p0 s0) = 0"
    by (simp add: set_capTm_def)
  from out A B C D show ?thesis by blast
qed

theorem zero_time_entry_consumed_silently_witness:
  "capTm (set_capTm syn_p1 init_state) = 0 \<and>
   map_of (tsTbl zero_state) ''7+10.0.0.2:80+10.0.0.1:1234'' = Some 0 \<and>
   map_of (seqTbl zero_state) ''5100+10.0.0.2:80+10.0.0.1:1234'' = Some 0 \<and>
   ecr_key zero_p3 = Some ''7+10.0.0.2:80+10.0.0.1:1234'' \<and>
   ack_key zero_p3 = Some ''5100+10.0.0.2:80+10.0.0.1:1234'' \<and>
   snd (processPacket default_config zero_state zero_p3)
     = Classified \<lparr>pd = False, sd = False, ds = False, dp = False, printed = None\<rparr> \<and>
   map_of (tsTbl (fst (processPacket default_config zero_state zero_p3)))
     ''7+10.0.0.2:80+10.0.0.1:1234'' = None \<and>
   map_of (seqTbl (fst (processPacket default_config zero_state zero_p3)))
     ''5100+10.0.0.2:80+10.0.0.1:1234'' = None"
proof -
  let ?fr = "\<lparr>flowname = ''10.0.0.1:1234+10.0.0.2:80'', lastTm = 0, bytesSnt = 66,
             lastSeq = 1001, lastAck = 0, lastPay = 0, revFlow = True\<rparr>"
  have h4: "map_of (flows zero_state) ''10.0.0.1:1234+10.0.0.2:80'' = Some ?fr"
    by (simp add: zero_state_eq)
  have h5: "revFlow ?fr" by simp
  have z: "map_of (tsTbl zero_state) ''7+10.0.0.2:80+10.0.0.1:1234'' = Some 0"
    "map_of (seqTbl zero_state) ''5100+10.0.0.2:80+10.0.0.1:1234'' = Some 0"
    by (simp_all add: zero_state_eq)
  have g: "\<not> filtLocal default_config \<or> localIP default_config \<noteq> ''10.0.0.2''"
    by (simp add: default_config_def)
  have c0: "capTm (set_capTm syn_p1 init_state) = 0"
    by (simp add: set_capTm_def init_state_def syn_p1_def tcp_packet_def)
  from zero_time_entry_consumed_silently
    [OF zero_p3_keys(1) zero_p3_keys(2) zero_p3_keys(3) h4 h5 zero_p3_run]
  have "map_of (tsTbl (fst (processPacket default_config zero_state zero_p3)))
          ''7+10.0.0.2:80+10.0.0.1:1234'' = None \<and>
        map_of (seqTbl (fst (processPacket default_config zero_state zero_p3)))
          ''5100+10.0.0.2:80+10.0.0.1:1234'' = None"
    using z g by (simp add: zero_p3_keys zero_p3_run TCP_ACK_def)
  then show ?thesis
    using z c0 by (simp add: zero_p3_keys zero_p3_run)
qed

subsection \<open>Duplicate ACKs with no gap (C10)\<close>

text \<open>
  C10. A pure ACK (the flags are exactly ACK, no payload) that repeats the acknowledgment
  number of the flow's previous packet and has the same capture time as that packet does
  not set \<open>dp\<close>; when neither \<open>pd\<close>, \<open>sd\<close> nor \<open>ds\<close> is set, no line is printed.
\<close>

theorem dup_ack_zero_gap_not_flagged:
  assumes "find_tcp pkt = Some t" "ip_info pkt t = Some (ips, ipd, pay, len)"
    and "fwd_key pkt = Some K" "map_of (flows s) K = Some fr"
    and "flags t = TCP_ACK" "pay = 0" "ack_seq t = lastAck fr"
    and "processPacket cfg s pkt = (s', out)" "capTm s' = lastTm fr"
  shows "\<exists>v. out = Classified v \<and> \<not> dp v \<and>
             (\<not> pd v \<and> \<not> sd v \<and> \<not> ds v \<longrightarrow> printed v = None)"
proof -
  define src where "src = ips @ '':'' @ to_string (unat (sport t))"
  define dst where "dst = ipd @ '':'' @ to_string (unat (dport t))"
  define s2 where "s2 = set_capTm pkt (s\<lparr>pktCnt := pktCnt s + 1\<rparr>)"
  let ?c = "classify cfg s2 fr t ipd src dst pay len"
  from processPacket_existing(1)[OF assms(1-4) src_def dst_def s2_def, of cfg] assms(8)
  have s': "s' = fst ?c" and out: "out = Classified (snd ?c)" by simp_all
  have "capTm s2 = capTm s'" by (simp add: s' classify_fst)
  with assms(9) have "capTm s2 = lastTm fr" by simp
  then have dp: "\<not> dp (snd ?c)"
    by (simp add: classify_flags dup_ack_def)
  then have "\<not> pd (snd ?c) \<and> \<not> sd (snd ?c) \<and> \<not> ds (snd ?c) \<longrightarrow> printed (snd ?c) = None"
    by (simp add: classify_printed Let_def)
  with dp out show ?thesis by blast
qed

theorem dup_ack_zero_gap_not_flagged_witness:
  "flags \<lparr>sport = 80, dport = 1234, seq = 7000, ack_seq = 5000, flags = TCP_ACK,
          tcp_header_size = 32, tcp_timestamp = None\<rparr> = TCP_ACK \<and>
   find_tcp dup_p = Some \<lparr>sport = 80, dport = 1234, seq = 7000, ack_seq = 5000, flags = TCP_ACK,
                         tcp_header_size = 32, tcp_timestamp = None\<rparr> \<and>
   lastAck (the (map_of (flows dup_state) ''10.0.0.2:80+10.0.0.1:1234'')) = 5000 \<and>
   lastTm (the (map_of (flows dup_state) ''10.0.0.2:80+10.0.0.1:1234''))
     = capTm (fst (processPacket default_config dup_state dup_p)) \<and>
   snd (processPacket default_config dup_state dup_p)
     = Classified \<lparr>pd = False, sd = False, ds = False, dp = False, printed = None\<rparr>"
proof -
  let ?t = "\<lparr>sport = 80, dport = 1234, seq = 7000, ack_seq = 5000, flags = TCP_ACK,
             tcp_header_size = 32, tcp_timestamp = None\<rparr>"
  let ?fr = "\<lparr>flowname = ''10.0.0.2:80+10.0.0.1:1234'', lastTm = 0, bytesSnt = 66,
             lastSeq = 7000, lastAck = 5000, lastPay = 0, revFlow = False\<rparr>"
  have h1: "find_tcp dup_p = Some ?t" by (simp add: dup_p_def tcp_packet_def)
  have h2: "ip_info dup_p ?t = Some (''10.0.0.2'', ''10.0.0.1'', 0, 66)"
    by (simp add: dup_p_def tcp_packet_def ip_info_def hostA_def hostB_def)
  have h3: "fwd_key dup_p = Some ''10.0.0.2:80+10.0.0.1:1234''"
    by (simp add: fwd_key_def flow_strs_def dup_p_def tcp_packet_def ip_info_def hostA_def
        hostB_def to_string.simps digit_def)
  have h4: "map_of (flows dup_state) ''10.0.0.2:80+10.0.0.1:1234'' = Some ?fr"
    by (simp add: dup_state_eq)
  from dup_ack_zero_gap_not_flagged[OF h1 h2 h3 h4 _ _ _ dup_p_second]
  have "\<exists>v. Classified \<lparr>pd = False, sd = False, ds = False, dp = False, printed = None\<rparr>
          = Classified v \<and> \<not> dp v \<and> (\<not> pd v \<and> \<not> sd v \<and> \<not> ds v \<longrightarrow> printed v = None)"
    by simp
  then show ?thesis using h1 h4 by (simp add: dup_p_second)
qed

end
